theory Spec2Isabelle
  imports Complex_Main "HOL-Library.Log_Nat" "HOL-Library.AList" "HOL-Library.Multiset"
begin

section \<open>Azure storage exporter: data model\<close>

text \<open>
  Exceptions of the Python program that the model distinguishes. \<open>ServiceError\<close> stands
  for any \<open>Exception\<close> raised by the Azure SDK (transport or API error); the others are
  raised by Python's own arithmetic.
\<close>

datatype exn = ServiceError string | OverflowError | ZeroDivisionError | TypeError

text \<open>
  A duck-typed attribute of a listed blob: \<open>NoAttr\<close> when \<open>hasattr\<close> is false,
  \<open>Attr None\<close> when the attribute is present with value \<open>None\<close>.
\<close>

datatype 'a attr = NoAttr | Attr "'a option"

fun hasattr :: "'a attr \<Rightarrow> bool" where
  "hasattr NoAttr = False"
| "hasattr (Attr v) = True"

fun is_not_None :: "'a attr \<Rightarrow> bool" where
  "is_not_None (Attr (Some v)) = True"
| "is_not_None a = False"

fun truthy :: "bool attr \<Rightarrow> bool" where
  "truthy (Attr (Some b)) = b"
| "truthy a = False"

record blob =
  blob_size :: "int option"
  deleted :: "bool attr"
  snapshot :: "string attr"
  version_id :: "string attr"
  is_current_version :: "bool attr"

text \<open>
  The per-container result dictionary. The eight local counters of
  \<open>_process_single_container\<close> are held in the same record under the keys they are
  returned with: \<open>total_size\<close> is \<open>size_bytes\<close>, \<open>deleted_size\<close> is
  \<open>deleted_size_bytes\<close>, \<open>deleted_count\<close> is \<open>deleted_blob_count\<close>,
  \<open>snapshot_size\<close> is \<open>snapshot_size_bytes\<close>, \<open>version_size\<close> is
  \<open>version_size_bytes\<close>.
\<close>

record metrics =
  size_bytes :: int
  blob_count :: int
  deleted_size_bytes :: int
  deleted_blob_count :: int
  snapshot_size_bytes :: int
  snapshot_count :: int
  version_size_bytes :: int
  version_count :: int

definition zero_counters :: metrics where
  "zero_counters = \<lparr>size_bytes = 0, blob_count = 0, deleted_size_bytes = 0,
     deleted_blob_count = 0, snapshot_size_bytes = 0, snapshot_count = 0,
     version_size_bytes = 0, version_count = 0\<rparr>"

text \<open>
  What \<open>container_client.list_blobs(include=...)\<close> does when it is iterated: it yields
  the items in order and then either ends or raises. A call that raises at once is a
  listing with no items and a failure.
\<close>

datatype listing = Listing "blob list" "exn option"

type_synonym container_client = "string list \<Rightarrow> listing"

record blob_service_client =
  list_containers :: "exn + string list"
  get_container_client :: "string \<Rightarrow> exn + container_client"

text \<open>The configuration fields of \<open>AzureStorageCollector\<close> (set once in \<open>__init__\<close>).\<close>

record collector =
  storage_account_name :: string
  resource_group_name :: string
  cache_ttl_seconds :: int
  max_workers :: int
  max_blobs_per_container :: int
  use_sampling :: bool

section \<open>Python floats\<close>

text \<open>
  A finite IEEE binary64 value is kept as the rational it denotes. \<open>round_double\<close> is
  round-to-nearest, ties to even, with 53 significant bits, gradual underflow below
  \<open>2 powi (-1022)\<close>, and \<open>None\<close> where the rounded value leaves the finite range.
\<close>

definition ilog2 :: "rat \<Rightarrow> int" where
  "ilog2 q = (let e = bitlen (fst (quotient_of q)) - bitlen (snd (quotient_of q))
              in if 2 powi e \<le> q then e else e - 1)"

definition round_half_even :: "rat \<Rightarrow> int" where
  "round_half_even x = (let f = \<lfloor>x\<rfloor>; d = x - of_int f
     in if d < 1 / 2 then f else if 1 / 2 < d then f + 1 else if even f then f else f + 1)"

definition round_double :: "rat \<Rightarrow> rat option" where
  "round_double q = (if q = 0 then Some 0 else
     let k = max (ilog2 \<bar>q\<bar> - 52) (- 1074);
         r = of_int (round_half_even (q / 2 powi k)) * 2 powi k
     in if 2 powi 1024 \<le> \<bar>r\<bar> then None else Some r)"

text \<open>A Python number that is either an \<open>int\<close> or a \<open>float\<close>.\<close>

datatype pynum = PInt int | PFloat rat

text \<open>\<open>a / b\<close> on two ints: the correctly rounded quotient, or an exception.\<close>

definition py_truediv :: "int \<Rightarrow> int \<Rightarrow> exn + rat" where
  "py_truediv a b = (if b = 0 then Inl ZeroDivisionError
     else case round_double (of_int a / of_int b) of
            None \<Rightarrow> Inl OverflowError
          | Some r \<Rightarrow> Inr r)"

definition trunc :: "rat \<Rightarrow> int" where
  "trunc p = (if 0 \<le> p then \<lfloor>p\<rfloor> else \<lceil>p\<rceil>)"

text \<open>
  \<open>int(c * r)\<close> for an int \<open>c\<close>. With a float \<open>r\<close> the int is converted to a float
  first (OverflowError when it is too large), the product is rounded, and a product that
  overflows to infinity makes \<open>int\<close> raise OverflowError.
\<close>

fun int_of_product :: "int \<Rightarrow> pynum \<Rightarrow> exn + int" where
  "int_of_product c (PInt k) = Inr (c * k)"
| "int_of_product c (PFloat r) =
     (case round_double (of_int c) of
        None \<Rightarrow> Inl OverflowError
      | Some fc \<Rightarrow>
          (case round_double (fc * r) of
             None \<Rightarrow> Inl OverflowError
           | Some p \<Rightarrow> Inr (trunc p)))"

section \<open>Container inventory scanner\<close>

definition is_deleted :: "blob \<Rightarrow> bool" where
  "is_deleted b = (hasattr (deleted b) \<and> truthy (deleted b))"

definition is_snapshot :: "blob \<Rightarrow> bool" where
  "is_snapshot b = (hasattr (snapshot b) \<and> is_not_None (snapshot b))"

definition is_version :: "blob \<Rightarrow> bool" where
  "is_version b = (hasattr (version_id b) \<and> is_not_None (version_id b)
     \<and> \<not> hasattr (is_current_version b))"

text \<open>\<open>if blob.size: x += blob.size\<close>: a size of \<open>None\<close> or \<open>0\<close> adds nothing.\<close>

definition add_size :: "blob \<Rightarrow> int \<Rightarrow> int" where
  "add_size b x = (case blob_size b of
      None \<Rightarrow> x
    | Some n \<Rightarrow> if n \<noteq> 0 then x + n else x)"

text \<open>The body of the main loop after \<open>processed_count += 1\<close>.\<close>

definition count_blob :: "blob \<Rightarrow> metrics \<Rightarrow> metrics" where
  "count_blob b c =
     (if is_deleted b then
        c\<lparr>deleted_size_bytes := add_size b (deleted_size_bytes c),
          deleted_blob_count := deleted_blob_count c + 1\<rparr>
      else if is_snapshot b then
        c\<lparr>snapshot_size_bytes := add_size b (snapshot_size_bytes c),
          snapshot_count := snapshot_count c + 1\<rparr>
      else if is_version b then
        c\<lparr>version_size_bytes := add_size b (version_size_bytes c),
          version_count := version_count c + 1\<rparr>
      else
        c\<lparr>size_bytes := add_size b (size_bytes c),
          blob_count := blob_count c + 1\<rparr>)"

text \<open>
  One of the eight assignments \<open>x = int(x * sample_ratio)\<close>. The pair holds the counters
  and the exception raised so far, if any; after an exception nothing more is assigned.
\<close>

definition scale_field ::
  "(metrics \<Rightarrow> int) \<Rightarrow> (int \<Rightarrow> metrics \<Rightarrow> metrics) \<Rightarrow> pynum
     \<Rightarrow> metrics \<times> exn option \<Rightarrow> metrics \<times> exn option" where
  "scale_field getf setf r st =
     (case st of
        (c, Some e) \<Rightarrow> (c, Some e)
      | (c, None) \<Rightarrow>
          (case int_of_product (getf c) r of
             Inl e \<Rightarrow> (c, Some e)
           | Inr v \<Rightarrow> (setf v c, None)))"

definition sample_ratio :: "collector \<Rightarrow> int \<Rightarrow> exn + pynum" where
  "sample_ratio self processed_count =
     (if processed_count > 0 then
        (case py_truediv processed_count (max_blobs_per_container self) of
           Inl e \<Rightarrow> Inl e
         | Inr r \<Rightarrow> Inr (PFloat r))
      else Inr (PInt 1))"

definition estimate :: "collector \<Rightarrow> int \<Rightarrow> metrics \<Rightarrow> metrics \<times> exn option" where
  "estimate self processed_count c =
     (case sample_ratio self processed_count of
        Inl e \<Rightarrow> (c, Some e)
      | Inr r \<Rightarrow>
         (scale_field version_count (\<lambda>v m. m\<lparr>version_count := v\<rparr>) r
         (scale_field version_size_bytes (\<lambda>v m. m\<lparr>version_size_bytes := v\<rparr>) r
         (scale_field snapshot_count (\<lambda>v m. m\<lparr>snapshot_count := v\<rparr>) r
         (scale_field snapshot_size_bytes (\<lambda>v m. m\<lparr>snapshot_size_bytes := v\<rparr>) r
         (scale_field deleted_blob_count (\<lambda>v m. m\<lparr>deleted_blob_count := v\<rparr>) r
         (scale_field deleted_size_bytes (\<lambda>v m. m\<lparr>deleted_size_bytes := v\<rparr>) r
         (scale_field blob_count (\<lambda>v m. m\<lparr>blob_count := v\<rparr>) r
         (scale_field size_bytes (\<lambda>v m. m\<lparr>size_bytes := v\<rparr>) r
            (c, None))))))))))"

text \<open>
  The \<open>for blob in all_blobs\<close> loop of the full listing. The arguments are the items the
  iterator still holds, how it ends, \<open>processed_count\<close> and the counters; the result is
  the counters when the loop is left and the exception that left it, if any.
\<close>

fun full_loop ::
  "collector \<Rightarrow> blob list \<Rightarrow> exn option \<Rightarrow> int \<Rightarrow> metrics \<Rightarrow> metrics \<times> exn option" where
  "full_loop self [] ending processed_count c = (c, ending)"
| "full_loop self (b # bs) ending processed_count c =
     (if max_blobs_per_container self > 0
         \<and> processed_count \<ge> max_blobs_per_container self then
        (if use_sampling self then estimate self processed_count c
         else (c, None))
      else full_loop self bs ending (processed_count + 1) (count_blob b c))"

text \<open>The loop of the fallback listing: deleted or active only, no limit.\<close>

definition count_basic :: "blob \<Rightarrow> metrics \<Rightarrow> metrics" where
  "count_basic b c =
     (if is_deleted b then
        c\<lparr>deleted_size_bytes := add_size b (deleted_size_bytes c),
          deleted_blob_count := deleted_blob_count c + 1\<rparr>
      else
        c\<lparr>size_bytes := add_size b (size_bytes c),
          blob_count := blob_count c + 1\<rparr>)"

fun basic_loop :: "blob list \<Rightarrow> exn option \<Rightarrow> metrics \<Rightarrow> metrics \<times> exn option" where
  "basic_loop [] ending c = (c, ending)"
| "basic_loop (b # bs) ending c = basic_loop bs ending (count_basic b c)"

definition include_all :: "string list" where
  "include_all = [''deleted'', ''snapshots'', ''versions'']"

definition include_deleted :: "string list" where
  "include_deleted = [''deleted'']"

text \<open>
  The body of the \<open>try\<close> statement of \<open>_process_single_container\<close>: the loop over
  \<open>list_blobs(include=['deleted', 'snapshots', 'versions'])\<close>, from zero counters.
\<close>

definition full_pass :: "collector \<Rightarrow> container_client \<Rightarrow> metrics \<times> exn option" where
  "full_pass self container_client =
     (case container_client include_all of
        Listing all_blobs ending \<Rightarrow> full_loop self all_blobs ending 0 zero_counters)"

text \<open>
  The handler of the \<open>try\<close> statement: the loop over \<open>list_blobs(include=['deleted'])\<close>,
  from the counters as the exception left them.
\<close>

definition fallback_pass :: "container_client \<Rightarrow> metrics \<Rightarrow> metrics \<times> exn option" where
  "fallback_pass container_client c =
     (case container_client include_deleted of
        Listing blobs ending \<Rightarrow> basic_loop blobs ending c)"

text \<open>
  The \<open>try\<close> statement, given the container client: the full pass, and on any exception
  the fallback pass, whose own exception is logged and dropped. The result is paired
  with the \<open>list_blobs\<close> calls made, in order. The log lines and \<open>waste_pct\<close>, which
  only the log line uses, are left out.
\<close>

definition scan_blobs :: "collector \<Rightarrow> container_client \<Rightarrow> metrics \<times> string list list" where
  "scan_blobs self container_client =
     (case full_pass self container_client of
        (c, None) \<Rightarrow> (c, [include_all])
      | (c, Some e) \<Rightarrow>
          (fst (fallback_pass container_client c), [include_all, include_deleted]))"

text \<open>
  The statements after the \<open>try\<close>: \<open>waste_pct\<close> and the summary log line, whose
  f-string divides each byte counter by \<open>1024**3\<close>. A true division of two ints raises
  OverflowError when its quotient is too large for a float; the product by 100 does
  not raise (it overflows to infinity), nor does the formatting. The values go to the
  logger only, so the model keeps what reaches the caller: the first exception raised,
  if any.
\<close>

definition waste_pct :: "metrics \<Rightarrow> exn option" where
  "waste_pct c =
     (let total_bytes = size_bytes c + deleted_size_bytes c + snapshot_size_bytes c
                        + version_size_bytes c
      in if total_bytes > 0 then
           (case py_truediv
                   (deleted_size_bytes c + snapshot_size_bytes c + version_size_bytes c)
                   total_bytes of
              Inl e \<Rightarrow> Some e
            | Inr q \<Rightarrow> None)
         else None)"

definition gib :: "int \<Rightarrow> exn option" where
  "gib x = (case py_truediv x (1024 ^ 3) of Inl e \<Rightarrow> Some e | Inr q \<Rightarrow> None)"

definition log_summary :: "metrics \<Rightarrow> exn option" where
  "log_summary c =
     (case waste_pct c of
        Some e \<Rightarrow> Some e
      | None \<Rightarrow>
          (case gib (size_bytes c) of
             Some e \<Rightarrow> Some e
           | None \<Rightarrow>
               (case gib (deleted_size_bytes c) of
                  Some e \<Rightarrow> Some e
                | None \<Rightarrow>
                    (case gib (snapshot_size_bytes c) of
                       Some e \<Rightarrow> Some e
                     | None \<Rightarrow> gib (version_size_bytes c)))))"

text \<open>
  \<open>_process_single_container\<close>. \<open>get_container_client\<close> is called before the \<open>try\<close>
  and the summary is logged after it, so an exception of either leaves the function.
\<close>

definition process_single_container ::
  "collector \<Rightarrow> blob_service_client \<Rightarrow> string \<Rightarrow> exn + (string \<times> metrics)" where
  "process_single_container self bsc container_name =
     (case get_container_client bsc container_name of
        Inl e \<Rightarrow> Inl e
      | Inr container_client \<Rightarrow>
          (let c = fst (scan_blobs self container_client) in
           case log_summary c of
             Some e \<Rightarrow> Inl e
           | None \<Rightarrow> Inr (container_name, c)))"

section \<open>Fan-out coordinator\<close>

text \<open>
  The dictionary \<open>containers_data\<close>, in insertion order. \<open>AList.update\<close> is Python's
  \<open>d[k] = v\<close>: an existing key keeps its place and gets the new value, a new key is
  appended.
\<close>

type_synonym account_snapshot = "(string \<times> metrics) list"





section \<open>Refresh cache\<close>

text \<open>
  The mutable fields of the collector: the cache, its timestamp, the refresh flag, and
  the instrumentation (counters as naturals, gauges as their last value, the histogram
  as the list of its observations).
\<close>

record cache_state =
  cache :: "account_snapshot option"
  cache_timestamp :: "rat option"
  refresh_in_progress :: bool
  cache_hits :: nat
  cache_misses :: nat
  cache_age :: rat
  last_azure_fetch_duration :: rat
  scrape_errors :: nat
  last_scrape_timestamp :: rat
  scrape_duration :: "rat list"

definition initial_state :: cache_state where
  "initial_state = \<lparr>cache = None, cache_timestamp = None, refresh_in_progress = False,
     cache_hits = 0, cache_misses = 0, cache_age = 0, last_azure_fetch_duration = 0,
     scrape_errors = 0, last_scrape_timestamp = 0, scrape_duration = []\<rparr>"

text \<open>
  What one call finds outside the collector: the reading of each \<open>time.time()\<close> call
  site it may reach (each is reached at most once in a call; differences of readings are
  taken exactly), and what \<open>self._get_container_metrics()\<close> does if it is called.
\<close>

record env =
  time_valid :: rat
  time_hit :: rat
  time_fetch_start :: rat
  time_fetch_end :: rat
  time_stored :: rat
  time_stale :: rat
  time_scrape_start :: rat
  time_scrape_stamp :: rat
  time_scrape_end :: rat
  fetch :: "exn + account_snapshot"

text \<open>
  What a call does to the shared fields and the lock, in order: the trace of a call.
\<close>

datatype field = Cache | Timestamp | Flag

datatype event = Acquire | Release | Read field | Write field | Fetch | StartThread

definition is_cache_valid :: "collector \<Rightarrow> cache_state \<Rightarrow> rat \<Rightarrow> bool" where
  "is_cache_valid self s now =
     (case cache s of
        None \<Rightarrow> False
      | Some d \<Rightarrow>
          (case cache_timestamp s of
             None \<Rightarrow> False
           | Some ts \<Rightarrow> now - ts < of_int (cache_ttl_seconds self)))"

text \<open>The field reads of \<open>_is_cache_valid\<close>; \<open>or\<close> stops at the first true operand.\<close>

definition is_cache_valid_reads :: "cache_state \<Rightarrow> event list" where
  "is_cache_valid_reads s =
     (if cache s = None then [Read Cache]
      else if cache_timestamp s = None then [Read Cache, Read Timestamp]
      else [Read Cache, Read Timestamp, Read Timestamp])"

text \<open>
  \<open>_get_cached_or_fresh_data\<close>: the value returned or the exception raised, the new
  state, and the trace. The whole body runs inside \<open>with self._cache_lock\<close>, so the
  trace starts with \<open>Acquire\<close> and ends with \<open>Release\<close> on every path, also when an
  exception leaves the block. With a cache but no timestamp, \<open>time.time() - None\<close>
  raises TypeError. In the first branch the cache and the timestamp are both set, since
  \<open>_is_cache_valid\<close> returned true; the other case of the \<open>case\<close> there is never taken.
\<close>

definition get_cached_or_fresh_data ::
  "collector \<Rightarrow> env \<Rightarrow> cache_state
     \<Rightarrow> (exn + account_snapshot) \<times> cache_state \<times> event list" where
  "get_cached_or_fresh_data self e s =
     (if is_cache_valid self s (time_valid e) then
        (case (cache s, cache_timestamp s) of
           (Some d, Some ts) \<Rightarrow>
             (Inr d,
              s\<lparr>cache_age := time_hit e - ts, cache_hits := cache_hits s + 1\<rparr>,
              [Acquire] @ is_cache_valid_reads s @ [Read Timestamp, Read Cache, Release])
         | _ \<Rightarrow> (Inl TypeError, s, [Acquire] @ is_cache_valid_reads s @ [Release]))
      else
        (let s1 = s\<lparr>cache_misses := cache_misses s + 1\<rparr> in
         case cache s1 of
           None \<Rightarrow>
             (case fetch e of
                Inl x \<Rightarrow>
                  (Inl x, s1,
                   [Acquire] @ is_cache_valid_reads s @ [Read Cache, Fetch, Release])
              | Inr containers_data \<Rightarrow>
                  (Inr containers_data,
                   s1\<lparr>last_azure_fetch_duration := time_fetch_end e - time_fetch_start e,
                      cache := Some containers_data,
                      cache_timestamp := Some (time_stored e),
                      cache_age := 0\<rparr>,
                   [Acquire] @ is_cache_valid_reads s
                     @ [Read Cache, Fetch, Write Cache, Write Timestamp, Release]))
         | Some d \<Rightarrow>
             (let (s2, started) =
                    (if \<not> refresh_in_progress s1
                     then (s1\<lparr>refresh_in_progress := True\<rparr>,
                           [Read Flag, Write Flag, StartThread])
                     else (s1, [Read Flag]))
              in case cache_timestamp s2 of
                   None \<Rightarrow>
                     (Inl TypeError, s2,
                      [Acquire] @ is_cache_valid_reads s @ [Read Cache] @ started
                        @ [Read Timestamp, Release])
                 | Some ts \<Rightarrow>
                     (Inr d, s2\<lparr>cache_age := time_stale e - ts\<rparr>,
                      [Acquire] @ is_cache_valid_reads s @ [Read Cache] @ started
                        @ [Read Timestamp, Read Cache, Release]))))"

text \<open>
  \<open>_background_refresh\<close>, run by the thread that a stale read starts: the fetch, then
  the update of the shared fields inside \<open>with self._cache_lock\<close>. The state is the
  one the thread finds when it takes the lock.
\<close>

definition background_refresh :: "env \<Rightarrow> cache_state \<Rightarrow> cache_state \<times> event list" where
  "background_refresh e s =
     (case fetch e of
        Inr containers_data \<Rightarrow>
          (s\<lparr>last_azure_fetch_duration := time_fetch_end e - time_fetch_start e,
             cache := Some containers_data,
             cache_timestamp := Some (time_stored e),
             refresh_in_progress := False,
             cache_age := 0\<rparr>,
           [Fetch, Acquire, Write Cache, Write Timestamp, Write Flag, Release])
      | Inl x \<Rightarrow>
          (s\<lparr>refresh_in_progress := False\<rparr>, [Fetch, Acquire, Write Flag, Release]))"

text \<open>
  Lock discipline of a trace, read from left to right with the lock free or held:
  \<open>accesses_locked\<close> says that the lock is taken and released in turn and every read or
  write of a shared field happens while it is held; \<open>fetch_unlocked\<close> says that no fetch
  happens while it is held.
\<close>

fun accesses_locked :: "bool \<Rightarrow> event list \<Rightarrow> bool" where
  "accesses_locked held [] = (\<not> held)"
| "accesses_locked held (Acquire # tr) = (\<not> held \<and> accesses_locked True tr)"
| "accesses_locked held (Release # tr) = (held \<and> accesses_locked False tr)"
| "accesses_locked held (Read f # tr) = (held \<and> accesses_locked held tr)"
| "accesses_locked held (Write f # tr) = (held \<and> accesses_locked held tr)"
| "accesses_locked held (Fetch # tr) = accesses_locked held tr"
| "accesses_locked held (StartThread # tr) = accesses_locked held tr"

fun fetch_unlocked :: "bool \<Rightarrow> event list \<Rightarrow> bool" where
  "fetch_unlocked held [] = True"
| "fetch_unlocked held (Acquire # tr) = fetch_unlocked True tr"
| "fetch_unlocked held (Release # tr) = fetch_unlocked False tr"
| "fetch_unlocked held (Fetch # tr) = (\<not> held \<and> fetch_unlocked held tr)"
| "fetch_unlocked held (ev # tr) = fetch_unlocked held tr"

section \<open>Metrics projector\<close>

text \<open>
  A \<open>GaugeMetricFamily\<close>: its name, its label names, and the samples added with
  \<open>add_metric\<close> (label values and value). The documentation strings are left out.
\<close>

record metric_family =
  family_name :: string
  label_names :: "string list"
  samples :: "(string list \<times> int) list"

definition gauge :: "string \<Rightarrow> string list \<Rightarrow> metric_family" where
  "gauge n ls = \<lparr>family_name = n, label_names = ls, samples = []\<rparr>"

definition add_metric :: "string list \<Rightarrow> int \<Rightarrow> metric_family \<Rightarrow> metric_family" where
  "add_metric ls v fam = fam\<lparr>samples := samples fam @ [(ls, v)]\<rparr>"

text \<open>The local variables of \<open>collect\<close> that its loop updates.\<close>

record projection =
  container_size_metric :: metric_family
  container_blob_count_metric :: metric_family
  container_deleted_size_metric :: metric_family
  container_deleted_count_metric :: metric_family
  container_snapshot_size_metric :: metric_family
  container_snapshot_count_metric :: metric_family
  container_version_size_metric :: metric_family
  container_version_count_metric :: metric_family
  total_size :: int
  total_deleted_size :: int
  total_snapshot_size :: int
  total_version_size :: int

definition container_labels :: "string list" where
  "container_labels = [''storage_account'', ''container_name'', ''resource_group'']"

definition account_labels :: "string list" where
  "account_labels = [''storage_account'', ''resource_group'']"

definition initial_projection :: projection where
  "initial_projection =
     \<lparr>container_size_metric = gauge ''azure_storage_container_size_bytes'' container_labels,
      container_blob_count_metric =
        gauge ''azure_storage_container_blob_count'' container_labels,
      container_deleted_size_metric =
        gauge ''azure_storage_container_deleted_size_bytes'' container_labels,
      container_deleted_count_metric =
        gauge ''azure_storage_container_deleted_blob_count'' container_labels,
      container_snapshot_size_metric =
        gauge ''azure_storage_container_snapshot_size_bytes'' container_labels,
      container_snapshot_count_metric =
        gauge ''azure_storage_container_snapshot_count'' container_labels,
      container_version_size_metric =
        gauge ''azure_storage_container_version_size_bytes'' container_labels,
      container_version_count_metric =
        gauge ''azure_storage_container_version_count'' container_labels,
      total_size = 0, total_deleted_size = 0, total_snapshot_size = 0,
      total_version_size = 0\<rparr>"

text \<open>The body of \<open>for container_name, metrics in containers_data.items()\<close>.\<close>

definition project_container ::
  "collector \<Rightarrow> string \<times> metrics \<Rightarrow> projection \<Rightarrow> projection" where
  "project_container self item p =
     (case item of (container_name, m) \<Rightarrow>
        (let ls = [storage_account_name self, container_name, resource_group_name self] in
         p\<lparr>container_size_metric := add_metric ls (size_bytes m) (container_size_metric p),
           container_blob_count_metric :=
             add_metric ls (blob_count m) (container_blob_count_metric p),
           container_deleted_size_metric :=
             add_metric ls (deleted_size_bytes m) (container_deleted_size_metric p),
           container_deleted_count_metric :=
             add_metric ls (deleted_blob_count m) (container_deleted_count_metric p),
           container_snapshot_size_metric :=
             add_metric ls (snapshot_size_bytes m) (container_snapshot_size_metric p),
           container_snapshot_count_metric :=
             add_metric ls (snapshot_count m) (container_snapshot_count_metric p),
           container_version_size_metric :=
             add_metric ls (version_size_bytes m) (container_version_size_metric p),
           container_version_count_metric :=
             add_metric ls (version_count m) (container_version_count_metric p),
           total_size := total_size p + size_bytes m,
           total_deleted_size := total_deleted_size p + deleted_size_bytes m,
           total_snapshot_size := total_snapshot_size p + snapshot_size_bytes m,
           total_version_size := total_version_size p + version_size_bytes m\<rparr>))"

text \<open>The metric families that \<open>collect\<close> yields for a snapshot, in order.\<close>

definition project :: "collector \<Rightarrow> account_snapshot \<Rightarrow> metric_family list" where
  "project self containers_data =
     (let p = fold (project_container self) containers_data initial_projection;
          ls = [storage_account_name self, resource_group_name self]
      in [container_size_metric p, container_blob_count_metric p,
          container_deleted_size_metric p, container_deleted_count_metric p,
          container_snapshot_size_metric p, container_snapshot_count_metric p,
          container_version_size_metric p, container_version_count_metric p,
          add_metric ls (total_size p)
            (gauge ''azure_storage_account_total_size_bytes'' account_labels),
          add_metric ls (total_deleted_size p)
            (gauge ''azure_storage_account_total_deleted_size_bytes'' account_labels),
          add_metric ls (total_size p + total_deleted_size p)
            (gauge ''azure_storage_account_total_size_with_deleted_bytes'' account_labels),
          add_metric ls
            (total_size p + total_deleted_size p + total_snapshot_size p
               + total_version_size p)
            (gauge ''azure_storage_account_total_size_all_bytes'' account_labels)])"

text \<open>
  \<open>collect\<close>, iterated to its end: the families or the exception, the new state and
  the trace of the cache read. An exception of the read counts a scrape error and is
  raised again.
\<close>

definition collect ::
  "collector \<Rightarrow> env \<Rightarrow> cache_state
     \<Rightarrow> (exn + metric_family list) \<times> cache_state \<times> event list" where
  "collect self e s =
     (case get_cached_or_fresh_data self e s of
        (Inl x, s', tr) \<Rightarrow> (Inl x, s'\<lparr>scrape_errors := scrape_errors s' + 1\<rparr>, tr)
      | (Inr containers_data, s', tr) \<Rightarrow>
          (Inr (project self containers_data),
           s'\<lparr>last_scrape_timestamp := time_scrape_stamp e,
              scrape_duration :=
                scrape_duration s' @ [time_scrape_end e - time_scrape_start e]\<rparr>,
           tr))"

section \<open>The collector and its refresh threads\<close>

text \<open>
  The collector with its background threads: the shared state and the number of refresh
  threads that were started and have not yet done their update. A scrape is a step
  \<open>Scrape\<close>, a call of \<open>collect\<close>; the update of a running thread is a step
  \<open>Finish\<close>, which does nothing when no thread runs. Each step is atomic: a scrape
  holds the lock from its first to its last access of the shared fields, and so does the
  update of a thread.
\<close>

record system =
  shared :: cache_state
  running :: nat

datatype action = Scrape env | Finish env

definition started_threads :: "event list \<Rightarrow> nat" where
  "started_threads tr = length (filter (\<lambda>ev. ev = StartThread) tr)"

fun step :: "collector \<Rightarrow> action \<Rightarrow> system \<Rightarrow> system" where
  "step self (Scrape e) sys =
     (case collect self e (shared sys) of
        (r, s', tr) \<Rightarrow> \<lparr>shared = s', running = running sys + started_threads tr\<rparr>)"
| "step self (Finish e) sys =
     (if running sys = 0 then sys
      else \<lparr>shared = fst (background_refresh e (shared sys)), running = running sys - 1\<rparr>)"

fun run :: "collector \<Rightarrow> action list \<Rightarrow> system \<Rightarrow> system" where
  "run self [] sys = sys"
| "run self (a # as) sys = run self as (step self a sys)"

definition initial_system :: system where
  "initial_system = \<lparr>shared = initial_state, running = 0\<rparr>"

section \<open>The specification's classification\<close>

text \<open>
  The four buckets and the precedence of the specification, deleted before snapshot
  before version before active, to compare the scanner's loop with.
\<close>

datatype bucket = Deleted | Snapshot | Version | Active

definition classify :: "blob \<Rightarrow> bucket" where
  "classify b = (if is_deleted b then Deleted else if is_snapshot b then Snapshot
                 else if is_version b then Version else Active)"

definition in_bucket :: "bucket \<Rightarrow> blob list \<Rightarrow> int" where
  "in_bucket k bs = int (length (filter (\<lambda>b. classify b = k) bs))"

text \<open>The records that the main loop counts: all of them, or the first
  \<open>max_blobs_per_container\<close> when that is positive.\<close>

definition processed :: "collector \<Rightarrow> blob list \<Rightarrow> blob list" where
  "processed self bs = (if max_blobs_per_container self > 0
     then take (nat (max_blobs_per_container self)) bs else bs)"

text \<open>Counters that a float holds exactly: each is below \<open>2 ^ 53\<close> in absolute value.\<close>

definition exact_as_float :: "metrics \<Rightarrow> bool" where
  "exact_as_float c =
     (\<bar>size_bytes c\<bar> < 2 ^ 53 \<and> \<bar>blob_count c\<bar> < 2 ^ 53 \<and>
      \<bar>deleted_size_bytes c\<bar> < 2 ^ 53 \<and> \<bar>deleted_blob_count c\<bar> < 2 ^ 53 \<and>
      \<bar>snapshot_size_bytes c\<bar> < 2 ^ 53 \<and> \<bar>snapshot_count c\<bar> < 2 ^ 53 \<and>
      \<bar>version_size_bytes c\<bar> < 2 ^ 53 \<and> \<bar>version_count c\<bar> < 2 ^ 53)"

text \<open>Byte counters far below the range of a float: each is below \<open>2 ^ 1000\<close> in absolute
  value.\<close>

definition bytes_in_float_range :: "metrics \<Rightarrow> bool" where
  "bytes_in_float_range c =
     (\<bar>size_bytes c\<bar> < 2 ^ 1000 \<and> \<bar>deleted_size_bytes c\<bar> < 2 ^ 1000 \<and>
      \<bar>snapshot_size_bytes c\<bar> < 2 ^ 1000 \<and> \<bar>version_size_bytes c\<bar> < 2 ^ 1000)"

section \<open>Example inputs\<close>

definition active_blob :: "int \<Rightarrow> blob" where
  "active_blob n = \<lparr>blob_size = Some n, deleted = Attr None, snapshot = Attr None,
     version_id = Attr None, is_current_version = Attr None\<rparr>"

definition deleted_blob :: "int \<Rightarrow> blob" where
  "deleted_blob n = \<lparr>blob_size = Some n, deleted = Attr (Some True), snapshot = Attr None,
     version_id = Attr None, is_current_version = Attr None\<rparr>"

definition snapshot_blob :: "int \<Rightarrow> blob" where
  "snapshot_blob n = \<lparr>blob_size = Some n, deleted = Attr None,
     snapshot = Attr (Some ''2024-01-01T00:00:00.0000000Z''),
     version_id = Attr None, is_current_version = Attr None\<rparr>"

definition version_blob :: "int \<Rightarrow> blob" where
  "version_blob n = \<lparr>blob_size = Some n, deleted = Attr None, snapshot = Attr None,
     version_id = Attr (Some ''2024-01-01T00:00:00.0000000Z''),
     is_current_version = NoAttr\<rparr>"

definition example_collector :: "int \<Rightarrow> bool \<Rightarrow> collector" where
  "example_collector limit sampling =
     \<lparr>storage_account_name = ''account'', resource_group_name = ''group'',
      cache_ttl_seconds = 900, max_workers = 10,
      max_blobs_per_container = limit, use_sampling = sampling\<rparr>"

text \<open>A container whose listings both fail: the full one after one item, the reduced one
  after two.\<close>

definition failing_client :: container_client where
  "failing_client include =
     (if include = include_all
      then Listing [active_blob 10] (Some (ServiceError ''timeout''))
      else Listing [active_blob 10, deleted_blob 5] (Some (ServiceError ''timeout'')))"

text \<open>An account with two containers; no client can be made for the second.\<close>

definition example_service :: blob_service_client where
  "example_service =
     \<lparr>list_containers = Inr [''logs'', ''data''],
      get_container_client =
        (\<lambda>name. if name = ''data'' then Inl (ServiceError ''no client'')
                 else Inr failing_client)\<rparr>"

text \<open>A call whose clock reads \<open>t\<close> at every call site and whose fetch does \<open>f\<close>.\<close>

definition env_at :: "rat \<Rightarrow> exn + account_snapshot \<Rightarrow> env" where
  "env_at t f = \<lparr>time_valid = t, time_hit = t, time_fetch_start = t, time_fetch_end = t,
     time_stored = t, time_stale = t, time_scrape_start = t, time_scrape_stamp = t,
     time_scrape_end = t, fetch = f\<rparr>"

definition example_snapshot :: account_snapshot where
  "example_snapshot = [(''logs'', zero_counters\<lparr>size_bytes := 20, blob_count := 2\<rparr>)]"

text \<open>A state with a snapshot taken at time 0 and no refresh running.\<close>

definition cached_state :: cache_state where
  "cached_state = initial_state\<lparr>cache := Some example_snapshot, cache_timestamp := Some 0\<rparr>"

text \<open>A service that hands out the given client for every container.\<close>

definition service_of :: "container_client \<Rightarrow> blob_service_client" where
  "service_of container_client =
     \<lparr>list_containers = Inr [''logs''],
      get_container_client = (\<lambda>name. Inr container_client)\<rparr>"

text \<open>A container with one active blob whose size is beyond the range of a float.\<close>

definition huge_client :: container_client where
  "huge_client include = Listing [active_blob (2 ^ 1100)] None"

section \<open>Python floats: the rounding and its exact cases\<close>

text \<open>\<open>ilog2\<close> is the binary exponent of a positive rational.\<close>

lemma ilog2_bounds:
  assumes "0 < q"
  shows "2 powi (ilog2 q) \<le> q \<and> q < 2 powi (ilog2 q + 1)"
proof -
  obtain a b where ab: "quotient_of q = (a, b)" by (cases "quotient_of q")
  have b: "0 < b" using ab by (rule quotient_of_denom_pos)
  have q: "q = of_int a / of_int b" using ab by (rule quotient_of_div)
  have a: "0 < a" using assms b by (simp add: q zero_less_divide_iff)
  define la where "la = bitlen a"
  define lb where "lb = bitlen b"
  have la: "(2::rat) powi (la - 1) \<le> of_int a" "of_int a < (2::rat) powi la"
  proof -
    have "1 \<le> la" using a by (simp add: la_def bitlen_alt_def)
    have "2 ^ nat (la - 1) \<le> a" "a < 2 ^ nat la"
      using bitlen_bounds [OF a] by (simp_all add: la_def)
    then have "(of_int (2 ^ nat (la - 1)) :: rat) \<le> of_int a"
      "(of_int a :: rat) < of_int (2 ^ nat la)"
      by (simp_all only: of_int_le_iff of_int_less_iff)
    then show "(2::rat) powi (la - 1) \<le> of_int a" "of_int a < (2::rat) powi la"
      using \<open>1 \<le> la\<close> by (simp_all add: power_int_def)
  qed
  have lb: "(2::rat) powi (lb - 1) \<le> of_int b" "of_int b < (2::rat) powi lb"
  proof -
    have "1 \<le> lb" using b by (simp add: lb_def bitlen_alt_def)
    have "2 ^ nat (lb - 1) \<le> b" "b < 2 ^ nat lb"
      using bitlen_bounds [OF b] by (simp_all add: lb_def)
    then have "(of_int (2 ^ nat (lb - 1)) :: rat) \<le> of_int b"
      "(of_int b :: rat) < of_int (2 ^ nat lb)"
      by (simp_all only: of_int_le_iff of_int_less_iff)
    then show "(2::rat) powi (lb - 1) \<le> of_int b" "of_int b < (2::rat) powi lb"
      using \<open>1 \<le> lb\<close> by (simp_all add: power_int_def)
  qed
  have bpos: "(0::rat) < of_int b" using b by simp
  have lo: "(2::rat) powi (la - lb - 1) \<le> q"
  proof -
    have "(2::rat) powi (la - lb - 1) * of_int b \<le> 2 powi (la - lb - 1) * 2 powi lb"
      using lb(2) by (intro mult_left_mono) simp_all
    also have "\<dots> = 2 powi (la - 1)"
      by (simp add: power_int_add [symmetric])
    also have "\<dots> \<le> of_int a" by (rule la(1))
    finally show ?thesis using bpos by (simp add: q pos_le_divide_eq)
  qed
  have hi: "q < (2::rat) powi (la - lb + 1)"
  proof -
    have "of_int a < (2::rat) powi la" by (rule la(2))
    also have "\<dots> = 2 powi (la - lb + 1) * 2 powi (lb - 1)"
      by (simp add: power_int_add [symmetric])
    also have "\<dots> \<le> 2 powi (la - lb + 1) * of_int b"
      using lb(1) by (intro mult_left_mono) simp_all
    finally show ?thesis using bpos by (simp add: q pos_divide_less_eq)
  qed
  show ?thesis
    using lo hi
    by (auto simp: ilog2_def ab Let_def la_def [symmetric] lb_def [symmetric] not_le
        algebra_simps)
qed

lemma ilog2_unique:
  assumes "2 powi e \<le> q" "q < 2 powi (e + 1)"
  shows "ilog2 q = e"
proof -
  have q: "0 < q" using assms(1) by (rule less_le_trans [rotated]) simp
  from ilog2_bounds [OF q]
  have b: "2 powi (ilog2 q) \<le> q" "q < 2 powi (ilog2 q + 1)" by simp_all
  have "(2::rat) powi e < 2 powi (ilog2 q + 1)" using assms(1) b(2) by simp
  then have 1: "e < ilog2 q + 1"
    using power_int_increasing [of "ilog2 q + 1" e "2::rat"] by (cases "e < ilog2 q + 1") auto
  have "(2::rat) powi (ilog2 q) < 2 powi (e + 1)" using assms(2) b(1) by simp
  then have 2: "ilog2 q < e + 1"
    using power_int_increasing [of "e + 1" "ilog2 q" "2::rat"] by (cases "ilog2 q < e + 1") auto
  from 1 2 show ?thesis by simp
qed

text \<open>The float nearest to one tenth, as Python prints it with \<open>(0.1).as_integer_ratio()\<close>.\<close>

lemma round_double_tenth: "round_double (1 / 10) = Some (3602879701896397 / 2 ^ 55)"
proof -
  have e: "ilog2 (1 / 10) = - 4"
    by (rule ilog2_unique) (simp_all add: power_int_def power_divide)
  have k: "max (ilog2 \<bar>1 / 10\<bar> - 52) (- 1074) = - 56" by (simp add: e)
  have p: "(2::rat) powi (- 56) = 1 / 2 ^ 56" by (simp add: power_int_def field_simps)
  have r: "round_half_even ((1 / 10) / (1 / 2 ^ 56)) = 7205759403792794"
  proof -
    have x: "((1::rat) / 10) / (1 / 2 ^ 56) = 7205759403792793 + 3 / 5" by simp
    have f: "\<lfloor>(7205759403792793::rat) + 3 / 5\<rfloor> = 7205759403792793"
      by (rule floor_unique) simp_all
    show ?thesis unfolding x round_half_even_def Let_def f by simp
  qed
  show ?thesis
    unfolding round_double_def Let_def k p r by (simp add: power_int_def)
qed

text \<open>Integers below \<open>2 ^ 53\<close> in absolute value are floats, and scaling by \<open>1.0\<close> keeps them.\<close>

lemma round_half_even_of_int: "round_half_even (of_int n) = n"
  by (simp add: round_half_even_def)

lemma ilog2_of_int_le:
  assumes "0 < c" "c < 2 ^ 53"
  shows "ilog2 (of_int c) \<le> 52"
proof -
  have q: "quotient_of (of_int c) = (c, 1)"
    by (metis Rat.of_int_def quotient_of_int)
  have b1: "bitlen 1 = 1" by (simp add: bitlen_alt_def)
  have "bitlen c \<le> 53" using assms by (simp add: bitlen_le_iff_power)
  then show ?thesis by (simp add: ilog2_def q b1 Let_def)
qed

lemma round_double_of_int:
  assumes "\<bar>c\<bar> < 2 ^ 53"
  shows "round_double (of_int c) = Some (of_int c)"
proof (cases "c = 0")
  case True then show ?thesis by (simp add: round_double_def)
next
  case False
  define k where "k = max (ilog2 \<bar>of_int c\<bar> - 52) (- 1074)"
  have "ilog2 \<bar>of_int c\<bar> \<le> 52"
    using ilog2_of_int_le [of "\<bar>c\<bar>"] assms False by simp
  then have k: "k \<le> 0" by (simp add: k_def)
  have pk: "(2::rat) powi k = 1 / 2 ^ nat (- k)"
    using k by (simp add: power_int_def field_simps)
  have "(of_int c :: rat) / 2 powi k = of_int (c * 2 ^ nat (- k))"
    by (simp add: pk)
  then have r: "of_int (round_half_even (of_int c / 2 powi k)) * 2 powi k = (of_int c :: rat)"
    by (simp only: round_half_even_of_int) (simp add: pk)
  have "\<bar>of_int c :: rat\<bar> < 2 ^ 53" using assms
    by (metis of_int_abs of_int_less_numeral_power_cancel_iff)
  also have "\<dots> \<le> 2 powi 1024" by simp
  finally have "\<not> 2 powi 1024 \<le> \<bar>of_int c :: rat\<bar>" by simp
  then show ?thesis
    using False r by (simp add: round_double_def Let_def k_def [symmetric])
qed

lemma py_truediv_same: "0 < n \<Longrightarrow> py_truediv n n = Inr 1"
  using round_double_of_int [of 1] by (simp add: py_truediv_def)

lemma trunc_of_int: "trunc (of_int c) = c"
  by (simp add: trunc_def)

lemma int_of_product_one:
  "\<bar>c\<bar> < 2 ^ 53 \<Longrightarrow> int_of_product c (PFloat 1) = Inr c"
  by (simp add: round_double_of_int trunc_of_int)

text \<open>Where a rounding stays finite and where it overflows; when the summary log line
  raises.\<close>

lemma round_half_even_bounds:
  "of_int (round_half_even x) \<le> x + 1" "x - 1 \<le> of_int (round_half_even x)"
  "of_int \<lfloor>x\<rfloor> \<le> (of_int (round_half_even x) :: rat)"
  by (simp_all add: round_half_even_def Let_def) linarith+

lemma round_double_finite:
  assumes "\<bar>q\<bar> \<le> 2 powi 1022"
  shows "round_double q \<noteq> None"
proof (cases "q = 0")
  case True then show ?thesis by (simp add: round_double_def)
next
  case False
  then have pos: "0 < \<bar>q\<bar>" by simp
  define k where "k = max (ilog2 \<bar>q\<bar> - 52) (- 1074)"
  define r where "r = of_int (round_half_even (q / 2 powi k)) * (2::rat) powi k"
  have p: "(0::rat) < 2 powi k" by simp
  have e: "(2::rat) powi (ilog2 \<bar>q\<bar>) \<le> \<bar>q\<bar>" using ilog2_bounds [OF pos] by simp
  have pk: "(2::rat) powi k \<le> max \<bar>q\<bar> 1"
  proof (cases "ilog2 \<bar>q\<bar> - 52 \<le> - 1074")
    case True
    then have "k = - 1074" by (simp add: k_def)
    then have "(2::rat) powi k \<le> 2 powi 0" by (intro power_int_increasing) simp_all
    then show ?thesis by simp
  next
    case False
    then have "k = ilog2 \<bar>q\<bar> - 52" by (simp add: k_def)
    then have "(2::rat) powi k \<le> 2 powi (ilog2 \<bar>q\<bar>)"
      by (intro power_int_increasing) simp_all
    with e show ?thesis by simp
  qed
  have "\<bar>of_int (round_half_even (q / 2 powi k)) :: rat\<bar> \<le> \<bar>q / 2 powi k\<bar> + 1"
    using round_half_even_bounds(1,2) [of "q / 2 powi k"] by linarith
  then have "\<bar>r\<bar> \<le> (\<bar>q / 2 powi k\<bar> + 1) * 2 powi k"
    unfolding r_def abs_mult using p by (simp add: mult_right_mono)
  also have "\<dots> = \<bar>q\<bar> + 2 powi k" using p by (simp add: field_simps abs_divide)
  also have "\<dots> \<le> \<bar>q\<bar> + max \<bar>q\<bar> 1" using pk by simp
  also have "\<dots> \<le> 2 powi 1022 + 2 powi 1022" using assms by (auto simp: max_def)
  also have "\<dots> < (2::rat) powi 1024" by simp
  finally have "\<not> 2 powi 1024 \<le> \<bar>r\<bar>" by simp
  then show ?thesis
    using False by (simp add: round_double_def Let_def k_def [symmetric] r_def [symmetric])
qed

lemma round_double_overflow:
  assumes "2 powi 1024 \<le> q"
  shows "round_double q = None"
proof -
  have pos: "0 < q" using assms by (rule less_le_trans [rotated]) simp
  define e where "e = ilog2 q"
  have b: "(2::rat) powi e \<le> q" "q < 2 powi (e + 1)"
    using ilog2_bounds [OF pos] by (simp_all add: e_def)
  have "(2::rat) powi 1024 < 2 powi (e + 1)" using assms b(2) by simp
  then have e1024: "1024 \<le> e"
    using power_int_increasing [of "e + 1" 1024 "2::rat"] by (cases "1024 \<le> e") auto
  have aq: "\<bar>q\<bar> = q" using pos by simp
  have k: "max (ilog2 q - 52) (- 1074) = e - 52" using e1024 by (simp add: e_def)
  have "(2::rat) powi 52 = 2 powi e / 2 powi (e - 52)"
    by (simp add: power_int_diff)
  also have "\<dots> \<le> q / 2 powi (e - 52)" using b(1) by (simp add: divide_right_mono)
  finally have "(2::rat) ^ 52 \<le> q / 2 powi (e - 52)" by simp
  then have "(2::int) ^ 52 \<le> \<lfloor>q / 2 powi (e - 52)\<rfloor>" by (simp add: le_floor_iff)
  then have "(of_int (2 ^ 52) :: rat) \<le> of_int \<lfloor>q / 2 powi (e - 52)\<rfloor>"
    by (simp only: of_int_le_iff)
  also have "\<dots> \<le> of_int (round_half_even (q / 2 powi (e - 52)))"
    by (rule round_half_even_bounds(3))
  finally have m: "(2::rat) powi 52 \<le> of_int (round_half_even (q / 2 powi (e - 52)))"
    by simp
  have split: "(2::rat) powi e = 2 powi n * 2 powi (e - n)" for n
    by (simp add: power_int_add [symmetric])
  have "(2::rat) powi 1024 \<le> 2 powi e" using e1024 by (intro power_int_increasing) simp_all
  also have "\<dots> = 2 powi 52 * 2 powi (e - 52)" by (rule split)
  also have "\<dots> \<le> of_int (round_half_even (q / 2 powi (e - 52))) * 2 powi (e - 52)"
    using m by (intro mult_right_mono) simp_all
  finally have big: "(2::rat) powi 1024
      \<le> of_int (round_half_even (q / 2 powi (e - 52))) * 2 powi (e - 52)" .
  then have "(2::rat) powi 1024
      \<le> \<bar>of_int (round_half_even (q / 2 powi (e - 52))) * 2 powi (e - 52)\<bar>" by linarith
  then show ?thesis
    unfolding round_double_def Let_def aq k using pos by simp
qed

lemma py_truediv_returns:
  assumes "b \<noteq> 0" and "\<bar>a\<bar> \<le> 2 ^ 1022"
  shows "\<exists>r. py_truediv a b = Inr r"
proof -
  have "\<bar>of_int a / of_int b :: rat\<bar> \<le> \<bar>of_int a\<bar>"
  proof -
    have "(1::int) \<le> \<bar>b\<bar>" using assms(1) by simp
    then have "(of_int 1 :: rat) \<le> of_int \<bar>b\<bar>" by (simp only: of_int_le_iff)
    then have "(1::rat) \<le> \<bar>of_int b\<bar>" by simp
    then have "\<bar>of_int a :: rat\<bar> / \<bar>of_int b\<bar> \<le> \<bar>of_int a\<bar> / 1"
      by (intro divide_left_mono) simp_all
    then show ?thesis by (simp add: abs_divide)
  qed
  also have "\<dots> \<le> 2 ^ 1022" using assms(2)
    by (metis of_int_abs of_int_le_numeral_power_cancel_iff)
  finally have "\<bar>of_int a / of_int b :: rat\<bar> \<le> 2 powi 1022" by simp
  from round_double_finite [OF this] show ?thesis
    using assms(1) by (auto simp: py_truediv_def split: option.splits)
qed

lemma log_summary_in_range:
  assumes "bytes_in_float_range c"
  shows "log_summary c = None"
proof -
  have small: "\<bar>x\<bar> < 2 ^ 1000 \<Longrightarrow> \<bar>x\<bar> \<le> 2 ^ 1022" for x :: int
    by (rule order_trans [of _ "2 ^ 1000"]) simp_all
  have g: "gib x = None" if "\<bar>x\<bar> < 2 ^ 1000" for x
  proof -
    have "(1024::int) ^ 3 \<noteq> 0" by simp
    from py_truediv_returns [OF this small [OF that]] obtain r where
      "py_truediv x (1024 ^ 3) = Inr r" ..
    then show ?thesis by (simp only: gib_def sum.case)
  qed
  have s3: "\<bar>deleted_size_bytes c + snapshot_size_bytes c + version_size_bytes c\<bar> \<le> 2 ^ 1022"
  proof -
    define B where "B = (2::int) ^ 1000"
    have B: "3 * B \<le> 2 ^ 1022" by (simp add: B_def)
    have "\<bar>deleted_size_bytes c\<bar> < B" "\<bar>snapshot_size_bytes c\<bar> < B"
      "\<bar>version_size_bytes c\<bar> < B"
      using assms by (simp_all add: bytes_in_float_range_def B_def)
    then have "\<bar>deleted_size_bytes c + snapshot_size_bytes c + version_size_bytes c\<bar>
               \<le> 3 * B" by linarith
    from this B show ?thesis by (rule order_trans)
  qed
  have w: "waste_pct c = None"
  proof (cases "0 < size_bytes c + deleted_size_bytes c + snapshot_size_bytes c
                    + version_size_bytes c")
    case True
    then have "size_bytes c + deleted_size_bytes c + snapshot_size_bytes c
                 + version_size_bytes c \<noteq> 0" by simp
    from py_truediv_returns [OF this s3] obtain r where
      "py_truediv (deleted_size_bytes c + snapshot_size_bytes c + version_size_bytes c)
         (size_bytes c + deleted_size_bytes c + snapshot_size_bytes c
            + version_size_bytes c) = Inr r" ..
    then show ?thesis by (simp add: waste_pct_def Let_def)
  next
    case False
    then show ?thesis by (simp add: waste_pct_def Let_def)
  qed
  have "gib (size_bytes c) = None" "gib (deleted_size_bytes c) = None"
    "gib (snapshot_size_bytes c) = None" "gib (version_size_bytes c) = None"
    using assms by (simp_all only: bytes_in_float_range_def g)
  then show ?thesis
    by (simp only: log_summary_def w option.case)
qed

lemma gib_overflow: "gib (2 ^ 1100) = Some OverflowError"
proof -
  have "of_int (2 ^ 1100) / of_int (1024 ^ 3) = (2::rat) ^ 1070"
    by simp
  moreover have "round_double ((2::rat) ^ 1070) = None"
    by (rule round_double_overflow) simp
  ultimately show ?thesis by (simp add: gib_def py_truediv_def)
qed

section \<open>The loop of the full listing\<close>

lemma full_loop_unlimited:
  "\<not> max_blobs_per_container self > 0 \<Longrightarrow>
   full_loop self bs ending pc c = (fold count_blob bs c, ending)"
  by (induction bs arbitrary: pc c) simp_all

lemma full_loop_within:
  "pc + int (length bs) \<le> max_blobs_per_container self \<Longrightarrow>
   full_loop self bs ending pc c = (fold count_blob bs c, ending)"
  by (induction bs arbitrary: pc c) simp_all

lemma full_loop_break:
  "0 < max_blobs_per_container self \<Longrightarrow> pc \<le> max_blobs_per_container self \<Longrightarrow>
   max_blobs_per_container self < pc + int (length bs) \<Longrightarrow>
   full_loop self bs ending pc c =
     (let c' = fold count_blob (take (nat (max_blobs_per_container self - pc)) bs) c
      in if use_sampling self then estimate self (max_blobs_per_container self) c'
         else (c', None))"
proof (induction bs arbitrary: pc c)
  case Nil then show ?case by simp
next
  case (Cons b bs)
  show ?case
  proof (cases "pc = max_blobs_per_container self")
    case True
    then show ?thesis using Cons.prems by simp
  next
    case False
    then have lt: "pc < max_blobs_per_container self" using Cons.prems by simp
    then have "nat (max_blobs_per_container self - pc)
               = Suc (nat (max_blobs_per_container self - (pc + 1)))" by simp
    then show ?thesis using Cons.IH [of "pc + 1" "count_blob b c"] Cons.prems lt
      by (simp add: Let_def)
  qed
qed

lemma fold_count_blob_counts:
  "deleted_blob_count (fold count_blob bs c) = deleted_blob_count c + in_bucket Deleted bs"
  "snapshot_count (fold count_blob bs c) = snapshot_count c + in_bucket Snapshot bs"
  "version_count (fold count_blob bs c) = version_count c + in_bucket Version bs"
  "blob_count (fold count_blob bs c) = blob_count c + in_bucket Active bs"
  by (induction bs arbitrary: c) (simp_all add: in_bucket_def classify_def count_blob_def)

lemma in_bucket_total:
  "in_bucket Deleted bs + in_bucket Snapshot bs + in_bucket Version bs + in_bucket Active bs
   = int (length bs)"
  by (induction bs) (simp_all add: in_bucket_def classify_def)

lemma full_loop_no_sampling:
  "\<not> use_sampling self \<Longrightarrow>
   full_loop self bs ending 0 c =
     (fold count_blob (processed self bs) c,
      if 0 < max_blobs_per_container self \<and> max_blobs_per_container self < int (length bs)
      then None else ending)"
proof (cases "0 < max_blobs_per_container self")
  case False
  then show ?thesis by (simp add: full_loop_unlimited processed_def)
next
  case True
  assume ns: "\<not> use_sampling self"
  show ?thesis
  proof (cases "max_blobs_per_container self < int (length bs)")
    case True
    with \<open>0 < max_blobs_per_container self\<close> ns show ?thesis
      using full_loop_break [of self 0 bs ending c] by (simp add: processed_def)
  next
    case False
    then have "take (nat (max_blobs_per_container self)) bs = bs" by simp
    with False \<open>0 < max_blobs_per_container self\<close> show ?thesis
      using full_loop_within [of 0 bs self ending c] by (simp add: processed_def)
  qed
qed

lemma zero_counters_fields:
  "size_bytes zero_counters = 0" "blob_count zero_counters = 0"
  "deleted_size_bytes zero_counters = 0" "deleted_blob_count zero_counters = 0"
  "snapshot_size_bytes zero_counters = 0" "snapshot_count zero_counters = 0"
  "version_size_bytes zero_counters = 0" "version_count zero_counters = 0"
  by (simp_all add: zero_counters_def)

lemma example_blob_classes:
  "classify (active_blob n) = Active" "classify (deleted_blob n) = Deleted"
  "classify (snapshot_blob n) = Snapshot" "classify (version_blob n) = Version"
  by (simp_all add: classify_def is_deleted_def is_snapshot_def is_version_def
      active_blob_def deleted_blob_def snapshot_blob_def version_blob_def)

text \<open>
  C3, as amended. Without sampling, for every full listing, whether it ends or raises,
  the main loop puts each record it processes (all of them, or the first
  \<open>max_blobs_per_container\<close>) into the one bucket that the precedence deleted,
  snapshot, version, active gives it: at the end of the loop each count is the number of
  processed records of that bucket, no count is negative, and the four counts add up to
  the number of records processed. When the loop ends without an exception, as it does
  when the listing ends, these counters are the scanner's result.
\<close>

theorem main_loop_classifies_each_record_once:
  assumes "\<not> use_sampling self" and "container_client include_all = Listing bs ending"
  shows "let c = fst (full_pass self container_client); ps = processed self bs in
     deleted_blob_count c = in_bucket Deleted ps \<and>
     snapshot_count c = in_bucket Snapshot ps \<and>
     version_count c = in_bucket Version ps \<and>
     blob_count c = in_bucket Active ps \<and>
     0 \<le> blob_count c \<and> 0 \<le> deleted_blob_count c \<and>
     0 \<le> snapshot_count c \<and> 0 \<le> version_count c \<and>
     blob_count c + deleted_blob_count c + snapshot_count c + version_count c
       = int (length ps) \<and>
     (ending = None \<longrightarrow> snd (full_pass self container_client) = None) \<and>
     (snd (full_pass self container_client) = None \<longrightarrow>
        fst (scan_blobs self container_client) = c)"
proof -
  have fp: "full_pass self container_client
            = (fold count_blob (processed self bs) zero_counters,
               if 0 < max_blobs_per_container self
                  \<and> max_blobs_per_container self < int (length bs)
               then None else ending)"
    using assms by (simp add: full_pass_def full_loop_no_sampling)
  have nn: "\<And>k. 0 \<le> in_bucket k (processed self bs)" by (simp add: in_bucket_def)
  have res: "snd (full_pass self container_client) = None \<Longrightarrow>
      fst (scan_blobs self container_client) = fst (full_pass self container_client)"
    by (cases "full_pass self container_client") (simp add: scan_blobs_def)
  have counts: "let c = fst (full_pass self container_client); ps = processed self bs in
     deleted_blob_count c = in_bucket Deleted ps \<and>
     snapshot_count c = in_bucket Snapshot ps \<and>
     version_count c = in_bucket Version ps \<and>
     blob_count c = in_bucket Active ps \<and>
     0 \<le> blob_count c \<and> 0 \<le> deleted_blob_count c \<and>
     0 \<le> snapshot_count c \<and> 0 \<le> version_count c \<and>
     blob_count c + deleted_blob_count c + snapshot_count c + version_count c
       = int (length ps)"
    using in_bucket_total [of "processed self bs"] nn
    by (simp add: fp fold_count_blob_counts zero_counters_fields Let_def)
  have "ending = None \<Longrightarrow> snd (full_pass self container_client) = None"
    by (simp add: fp)
  with counts res show ?thesis by (simp add: Let_def)
qed

theorem main_loop_classifies_each_record_once_witness:
  "\<not> use_sampling (example_collector 3 False) \<and>
   (let m = fst (scan_blobs (example_collector 3 False)
              (\<lambda>include. Listing [deleted_blob 5, snapshot_blob 7, active_blob 10,
                                   version_blob 3] None))
    in deleted_blob_count m = 1 \<and> snapshot_count m = 1 \<and> version_count m = 0 \<and>
       blob_count m = 1 \<and>
       blob_count m + deleted_blob_count m + snapshot_count m + version_count m = 3)"
proof -
  let ?cc = "\<lambda>include :: string list.
     Listing [deleted_blob 5, snapshot_blob 7, active_blob 10, version_blob 3] None"
  have h: "\<not> use_sampling (example_collector 3 False)"
    by (simp add: example_collector_def)
  have l: "?cc include_all
           = Listing [deleted_blob 5, snapshot_blob 7, active_blob 10, version_blob 3] None"
    by simp
  show ?thesis
    using h main_loop_classifies_each_record_once [OF h l]
    by (simp add: processed_def example_collector_def in_bucket_def example_blob_classes
        Let_def)
qed

section \<open>Sampling\<close>

lemma sample_ratio_at_limit:
  "0 < max_blobs_per_container self \<Longrightarrow>
   sample_ratio self (max_blobs_per_container self) = Inr (PFloat 1)"
  by (simp add: sample_ratio_def py_truediv_same)

lemma scale_field_one:
  "\<bar>getf c\<bar> < 2 ^ 53 \<Longrightarrow> setf (getf c) c = c \<Longrightarrow>
   scale_field getf setf (PFloat 1) (c, None) = (c, None)"
  by (simp add: scale_field_def int_of_product_one del: int_of_product.simps)

lemma estimate_at_limit:
  assumes "0 < max_blobs_per_container self" and "exact_as_float c"
  shows "estimate self (max_blobs_per_container self) c = (c, None)"
  using assms
  by (simp add: estimate_def sample_ratio_at_limit exact_as_float_def scale_field_one)

lemma full_loop_sampling:
  assumes "exact_as_float (fold count_blob (processed self bs) c)"
  shows "full_loop self bs ending 0 c =
     (fold count_blob (processed self bs) c,
      if 0 < max_blobs_per_container self \<and> max_blobs_per_container self < int (length bs)
      then None else ending)"
proof (cases "use_sampling self")
  case False then show ?thesis by (rule full_loop_no_sampling)
next
  case True
  show ?thesis
  proof (cases "0 < max_blobs_per_container self \<and> max_blobs_per_container self < int (length bs)")
    case True
    then have p: "processed self bs = take (nat (max_blobs_per_container self)) bs"
      by (simp add: processed_def)
    show ?thesis
      using True \<open>use_sampling self\<close> assms full_loop_break [of self 0 bs ending c]
      by (simp add: p estimate_at_limit)
  next
    case False
    show ?thesis
    proof (cases "0 < max_blobs_per_container self")
      case True
      with False have "take (nat (max_blobs_per_container self)) bs = bs" by simp
      with False True show ?thesis
        using full_loop_within [of 0 bs self ending c] by (simp add: processed_def)
    next
      case False
      then show ?thesis by (simp add: full_loop_unlimited processed_def)
    qed
  qed
qed

lemma sampling_changes_nothing:
  assumes "exact_as_float (fold count_blob (processed self bs) c)"
  shows "full_loop (self\<lparr>use_sampling := True\<rparr>) bs ending 0 c
         = full_loop (self\<lparr>use_sampling := False\<rparr>) bs ending 0 c"
proof -
  have "processed (self\<lparr>use_sampling := True\<rparr>) bs = processed self bs"
       "processed (self\<lparr>use_sampling := False\<rparr>) bs = processed self bs"
    by (simp_all add: processed_def)
  then show ?thesis
    using assms full_loop_sampling [of "self\<lparr>use_sampling := True\<rparr>" bs c ending]
      full_loop_sampling [of "self\<lparr>use_sampling := False\<rparr>" bs c ending]
    by simp
qed

lemma count_blob_active:
  "count_blob (active_blob n) c =
     c\<lparr>size_bytes := (if n \<noteq> 0 then size_bytes c + n else size_bytes c),
       blob_count := blob_count c + 1\<rparr>"
  by (simp add: count_blob_def is_deleted_def is_snapshot_def is_version_def active_blob_def
      add_size_def)

text \<open>
  C1. With \<open>max_blobs_per_container = 2\<close>, sampling on, and a full listing of four
  active blobs of 10 bytes, the scanner returns 20 bytes in 2 blobs: the sums over the
  first two records, the same as with sampling off, and not an estimate of the 40 bytes
  in 4 blobs of the container.
\<close>

theorem sampling_returns_partial_sums:
  "fst (scan_blobs (example_collector 2 True)
         (\<lambda>include. Listing [active_blob 10, active_blob 10, active_blob 10, active_blob 10]
            None))
     = zero_counters\<lparr>size_bytes := 20, blob_count := 2\<rparr>
   \<and> fst (scan_blobs (example_collector 2 False)
         (\<lambda>include. Listing [active_blob 10, active_blob 10, active_blob 10, active_blob 10]
            None))
     = zero_counters\<lparr>size_bytes := 20, blob_count := 2\<rparr>"
proof -
  let ?bs = "[active_blob 10, active_blob 10, active_blob 10, active_blob 10]"
  have f: "fold count_blob (processed (example_collector 2 b) ?bs) zero_counters
           = zero_counters\<lparr>size_bytes := 20, blob_count := 2\<rparr>" for b
    by (simp add: processed_def example_collector_def numeral_2_eq_2 count_blob_active
        zero_counters_def)
  have e: "exact_as_float (zero_counters\<lparr>size_bytes := 20, blob_count := 2\<rparr>)"
    by (simp add: exact_as_float_def zero_counters_def)
  have "full_loop (example_collector 2 b) ?bs None 0 zero_counters
        = (zero_counters\<lparr>size_bytes := 20, blob_count := 2\<rparr>, None)" for b
    using full_loop_sampling [of "example_collector 2 b" ?bs zero_counters None] e
    by (simp only: f) (simp add: example_collector_def)
  then show ?thesis
    by (simp add: scan_blobs_def full_pass_def)
qed

section \<open>The fallback listing\<close>

lemma basic_loop_fold: "basic_loop bs ending c = (fold count_basic bs c, ending)"
  by (induction bs arbitrary: c) simp_all

lemma fold_count_basic_counts:
  "deleted_blob_count (fold count_basic bs c)
     = deleted_blob_count c + int (length (filter is_deleted bs))"
  "blob_count (fold count_basic bs c)
     = blob_count c + int (length (filter (\<lambda>b. \<not> is_deleted b) bs))"
  "snapshot_count (fold count_basic bs c) = snapshot_count c"
  "version_count (fold count_basic bs c) = version_count c"
  by (induction bs arbitrary: c) (simp_all add: count_basic_def)

lemma filter_split_length:
  "int (length (filter P bs)) + int (length (filter (\<lambda>b. \<not> P b) bs)) = int (length bs)"
  by (induction bs) simp_all

lemma full_loop_raises:
  assumes "\<not> 0 < max_blobs_per_container self
           \<or> int (length bs) \<le> max_blobs_per_container self"
  shows "full_loop self bs ending 0 c = (fold count_blob bs c, ending)"
  using assms full_loop_unlimited [of self bs ending 0 c]
    full_loop_within [of 0 bs self ending c] by auto

text \<open>
  C2, as amended. An exception of \<open>get_container_client\<close>, which is called before the
  \<open>try\<close>, is raised to the caller. Once the container client is obtained, and when
  each byte counter of the result is below \<open>2 ^ 1000\<close> in absolute value, the scanner
  returns a result whatever the two listings do. If the full pass ends without an
  exception, only the full listing is called and its counters are returned. If the full
  pass raises, as it does when the full listing raises before the limit is reached, the
  reduced listing is called once, and the result is the counters of the full pass at the
  exception with the items of the reduced listing added, whether that listing ends or
  raises after them.
\<close>

theorem scanner_catches_listing_failures:
  "(\<forall>e. get_container_client bsc container_name = Inl e \<longrightarrow>
      process_single_container self bsc container_name = Inl e) \<and>
   (\<forall>container_client.
      get_container_client bsc container_name = Inr container_client \<longrightarrow>
      bytes_in_float_range (fst (scan_blobs self container_client)) \<longrightarrow>
        process_single_container self bsc container_name
           = Inr (container_name, fst (scan_blobs self container_client)) \<and>
        (snd (full_pass self container_client) = None \<longrightarrow>
           scan_blobs self container_client
             = (fst (full_pass self container_client), [include_all])) \<and>
        (snd (full_pass self container_client) \<noteq> None \<longrightarrow>
           snd (scan_blobs self container_client) = [include_all, include_deleted] \<and>
           (\<forall>blobs ending. container_client include_deleted = Listing blobs ending \<longrightarrow>
              fst (scan_blobs self container_client)
                = fold count_basic blobs (fst (full_pass self container_client)))) \<and>
        (\<forall>all_blobs e. container_client include_all = Listing all_blobs (Some e) \<longrightarrow>
           (\<not> 0 < max_blobs_per_container self
            \<or> int (length all_blobs) \<le> max_blobs_per_container self) \<longrightarrow>
           snd (full_pass self container_client) = Some e))"
proof (intro conjI allI impI)
  fix e assume "get_container_client bsc container_name = Inl e"
  then show "process_single_container self bsc container_name = Inl e"
    by (simp add: process_single_container_def)
next
  fix container_client
  assume "get_container_client bsc container_name = Inr container_client"
    and "bytes_in_float_range (fst (scan_blobs self container_client))"
  then show "process_single_container self bsc container_name
           = Inr (container_name, fst (scan_blobs self container_client))"
    by (simp add: process_single_container_def log_summary_in_range Let_def)
next
  fix container_client
  assume "snd (full_pass self container_client) = None"
  then show "scan_blobs self container_client
             = (fst (full_pass self container_client), [include_all])"
    by (cases "full_pass self container_client") (simp add: scan_blobs_def)
next
  fix container_client
  assume "snd (full_pass self container_client) \<noteq> None"
  then show "snd (scan_blobs self container_client) = [include_all, include_deleted]"
    by (cases "full_pass self container_client") (auto simp: scan_blobs_def)
next
  fix container_client blobs ending
  assume "snd (full_pass self container_client) \<noteq> None"
    and "container_client include_deleted = Listing blobs ending"
  then show "fst (scan_blobs self container_client)
                = fold count_basic blobs (fst (full_pass self container_client))"
    by (cases "full_pass self container_client")
       (auto simp: scan_blobs_def fallback_pass_def basic_loop_fold)
next
  fix container_client all_blobs e
  assume "container_client include_all = Listing all_blobs (Some e)"
    and "\<not> 0 < max_blobs_per_container self
         \<or> int (length all_blobs) \<le> max_blobs_per_container self"
  then show "snd (full_pass self container_client) = Some e"
    by (simp add: full_pass_def full_loop_raises)
qed

lemma count_blob_examples:
  "count_blob (deleted_blob n) c =
     c\<lparr>deleted_size_bytes := (if n \<noteq> 0 then deleted_size_bytes c + n
                                 else deleted_size_bytes c),
       deleted_blob_count := deleted_blob_count c + 1\<rparr>"
  "count_blob (snapshot_blob n) c =
     c\<lparr>snapshot_size_bytes := (if n \<noteq> 0 then snapshot_size_bytes c + n
                                  else snapshot_size_bytes c),
       snapshot_count := snapshot_count c + 1\<rparr>"
  "count_blob (version_blob n) c =
     c\<lparr>version_size_bytes := (if n \<noteq> 0 then version_size_bytes c + n
                                 else version_size_bytes c),
       version_count := version_count c + 1\<rparr>"
  by (simp_all add: count_blob_def is_deleted_def is_snapshot_def is_version_def
      deleted_blob_def snapshot_blob_def version_blob_def add_size_def)

lemma count_basic_examples:
  "count_basic (active_blob n) c =
     c\<lparr>size_bytes := (if n \<noteq> 0 then size_bytes c + n else size_bytes c),
       blob_count := blob_count c + 1\<rparr>"
  "count_basic (deleted_blob n) c =
     c\<lparr>deleted_size_bytes := (if n \<noteq> 0 then deleted_size_bytes c + n
                                 else deleted_size_bytes c),
       deleted_blob_count := deleted_blob_count c + 1\<rparr>"
  by (simp_all add: count_basic_def is_deleted_def active_blob_def deleted_blob_def
      add_size_def)

lemma include_distinct: "include_deleted \<noteq> include_all"
  by (simp add: include_all_def include_deleted_def)

lemma scan_failing_client:
  "scan_blobs (example_collector 0 False) failing_client
     = (zero_counters\<lparr>size_bytes := 20, blob_count := 2, deleted_size_bytes := 5,
                       deleted_blob_count := 1\<rparr>,
        [include_all, include_deleted])"
  by (simp add: scan_blobs_def full_pass_def fallback_pass_def failing_client_def
      include_distinct example_collector_def count_blob_active count_basic_examples
      zero_counters_def)

lemma small_counters_in_range:
  "bytes_in_float_range (zero_counters\<lparr>size_bytes := 20, blob_count := 2,
      deleted_size_bytes := 5, deleted_blob_count := 1\<rparr>)"
  by (simp add: bytes_in_float_range_def zero_counters_def)

theorem scanner_catches_listing_failures_witness:
  "get_container_client example_service ''data'' = Inl (ServiceError ''no client'') \<and>
   process_single_container (example_collector 0 False) example_service ''data''
     = Inl (ServiceError ''no client'') \<and>
   get_container_client example_service ''logs'' = Inr failing_client \<and>
   bytes_in_float_range (fst (scan_blobs (example_collector 0 False) failing_client)) \<and>
   snd (full_pass (example_collector 0 False) failing_client) \<noteq> None \<and>
   process_single_container (example_collector 0 False) example_service ''logs''
     = Inr (''logs'', zero_counters\<lparr>size_bytes := 20, blob_count := 2,
              deleted_size_bytes := 5, deleted_blob_count := 1\<rparr>) \<and>
   snd (scan_blobs (example_collector 0 False) failing_client)
     = [include_all, include_deleted]"
proof -
  let ?C = "example_collector 0 False"
  have h1: "get_container_client example_service ''data'' = Inl (ServiceError ''no client'')"
    by (simp add: example_service_def)
  have h2: "get_container_client example_service ''logs'' = Inr failing_client"
    by (simp add: example_service_def)
  have h3: "bytes_in_float_range (fst (scan_blobs ?C failing_client))"
    by (simp add: scan_failing_client small_counters_in_range)
  have h4: "snd (full_pass ?C failing_client) \<noteq> None"
    by (simp add: full_pass_def failing_client_def example_collector_def)
  from scanner_catches_listing_failures [of example_service "''data''" ?C] h1
  have r1: "process_single_container ?C example_service ''data''
            = Inl (ServiceError ''no client'')" by blast
  from scanner_catches_listing_failures [of example_service "''logs''" ?C] h2 h3 h4
  have r2: "process_single_container ?C example_service ''logs''
            = Inr (''logs'', fst (scan_blobs ?C failing_client))"
    and r3: "snd (scan_blobs ?C failing_client) = [include_all, include_deleted]"
    by blast+
  from h1 r1 h2 h3 h4 r2 r3 show ?thesis by (simp add: scan_failing_client)
qed

lemma scan_huge_client:
  "fst (scan_blobs (example_collector 0 False) huge_client)
     = zero_counters\<lparr>size_bytes := 2 ^ 1100, blob_count := 1\<rparr>"
proof -
  have "(2::int) ^ 1100 \<noteq> 0" by simp
  then have "count_blob (active_blob (2 ^ 1100)) zero_counters
             = zero_counters\<lparr>size_bytes := 2 ^ 1100, blob_count := 1\<rparr>"
    by (simp only: count_blob_active) (simp add: zero_counters_def)
  then show ?thesis
    by (simp only: scan_blobs_def full_pass_def huge_client_def listing.case
        full_loop.simps example_collector_def collector.simps)
       (simp add: zero_counters_def)
qed

lemma log_summary_huge:
  "log_summary (zero_counters\<lparr>size_bytes := 2 ^ 1100, blob_count := 1\<rparr>)
     = Some OverflowError"
proof -
  have w: "waste_pct (zero_counters\<lparr>size_bytes := 2 ^ 1100, blob_count := 1\<rparr>) = None"
  proof -
    have "py_truediv 0 (2 ^ 1100) = Inr 0"
      by (simp add: py_truediv_def round_double_def)
    then show ?thesis by (simp add: waste_pct_def zero_counters_def Let_def)
  qed
  have s: "size_bytes (zero_counters\<lparr>size_bytes := 2 ^ 1100, blob_count := 1\<rparr>) = 2 ^ 1100"
    by simp
  show ?thesis
    by (simp only: log_summary_def w s gib_overflow option.case)
qed

text \<open>
  C2, as stated, fails: the scanner raises when no client can be made for the container,
  and when the summary log line divides a byte counter beyond the range of a float.
\<close>

theorem scanner_raises_outside_try:
  "process_single_container (example_collector 0 False) example_service ''data''
     = Inl (ServiceError ''no client'') \<and>
   process_single_container (example_collector 0 False) (service_of huge_client) ''logs''
     = Inl OverflowError"
proof -
  have "process_single_container (example_collector 0 False) (service_of huge_client) ''logs''
     = Inl OverflowError"
    by (simp only: process_single_container_def service_of_def blob_service_client.simps
        sum.case Let_def scan_huge_client log_summary_huge option.case)
  then show ?thesis
    by (simp add: process_single_container_def example_service_def)
qed

text \<open>
  C3, as stated, fails: when the full listing raises after one active record and the
  reduced listing then yields that record and a deleted one, the record is counted twice
  as active and the four counts add up to 3, not to the one record that the main loop
  processed.
\<close>

theorem failed_listing_counts_record_twice:
  "\<not> use_sampling (example_collector 0 False) \<and>
   failing_client include_all
     = Listing [active_blob 10] (Some (ServiceError ''timeout'')) \<and>
   (let m = fst (scan_blobs (example_collector 0 False) failing_client);
        ps = processed (example_collector 0 False) [active_blob 10]
    in blob_count m = 2 \<and> in_bucket Active ps = 1 \<and>
       blob_count m + deleted_blob_count m + snapshot_count m + version_count m = 3 \<and>
       int (length ps) = 1)"
proof -
  have p: "processed (example_collector 0 False) [active_blob 10] = [active_blob 10]"
    by (simp add: processed_def example_collector_def)
  have u: "\<not> use_sampling (example_collector 0 False)"
    by (simp add: example_collector_def)
  have l: "failing_client include_all
           = Listing [active_blob 10] (Some (ServiceError ''timeout''))"
    by (simp add: failing_client_def)
  show ?thesis
    unfolding Let_def scan_failing_client p
    using u l by (simp add: in_bucket_def example_blob_classes zero_counters_def)
qed

text \<open>
  C9. When the full listing raises after its items \<open>xs\<close> (the limit, if any, not
  reached before), the reduced listing is counted from its first item on top of the
  counters of the full pass, and all of its items \<open>ys\<close> are counted, with no limit:
  the result is the sums over \<open>xs\<close> plus the sums over \<open>ys\<close>, and the four counts
  add up to the length of \<open>xs\<close> plus the length of \<open>ys\<close>, so that an object listed
  in both passes is counted twice.
\<close>

theorem fallback_adds_to_partial_sums:
  assumes "container_client include_all = Listing xs (Some e)"
    and "container_client include_deleted = Listing ys ending"
    and "\<not> 0 < max_blobs_per_container self
         \<or> int (length xs) \<le> max_blobs_per_container self"
  shows "let m = fst (scan_blobs self container_client) in
     m = fold count_basic ys (fold count_blob xs zero_counters) \<and>
     deleted_blob_count m = in_bucket Deleted xs + int (length (filter is_deleted ys)) \<and>
     blob_count m
       = in_bucket Active xs + int (length (filter (\<lambda>b. \<not> is_deleted b) ys)) \<and>
     snapshot_count m = in_bucket Snapshot xs \<and>
     version_count m = in_bucket Version xs \<and>
     blob_count m + deleted_blob_count m + snapshot_count m + version_count m
       = int (length xs) + int (length ys)"
proof -
  have fp: "full_pass self container_client = (fold count_blob xs zero_counters, Some e)"
    using assms(1,3) by (simp add: full_pass_def full_loop_raises)
  have m: "fst (scan_blobs self container_client)
           = fold count_basic ys (fold count_blob xs zero_counters)"
    using assms(2) by (simp add: scan_blobs_def fp fallback_pass_def basic_loop_fold)
  show ?thesis
    using in_bucket_total [of xs] filter_split_length [of is_deleted ys]
    by (simp add: m Let_def fold_count_basic_counts fold_count_blob_counts
        zero_counters_fields)
qed

theorem fallback_adds_to_partial_sums_witness:
  "failing_client include_all = Listing [active_blob 10] (Some (ServiceError ''timeout'')) \<and>
   failing_client include_deleted
     = Listing [active_blob 10, deleted_blob 5] (Some (ServiceError ''timeout'')) \<and>
   \<not> 0 < max_blobs_per_container (example_collector 0 False) \<and>
   (let m = fst (scan_blobs (example_collector 0 False) failing_client) in
      size_bytes m = 20 \<and> blob_count m = 2 \<and> deleted_blob_count m = 1 \<and>
      blob_count m + deleted_blob_count m + snapshot_count m + version_count m = 3)"
proof -
  have h1: "failing_client include_all
            = Listing [active_blob 10] (Some (ServiceError ''timeout''))"
    by (simp add: failing_client_def)
  have h2: "failing_client include_deleted
            = Listing [active_blob 10, deleted_blob 5] (Some (ServiceError ''timeout''))"
    by (simp add: failing_client_def include_distinct)
  have h3: "\<not> 0 < max_blobs_per_container (example_collector 0 False)
            \<or> int (length [active_blob 10])
                \<le> max_blobs_per_container (example_collector 0 False)"
    by (simp add: example_collector_def)
  show ?thesis
    using h1 h2 fallback_adds_to_partial_sums [OF h1 h2 h3]
    by (simp add: Let_def example_collector_def count_blob_active count_basic_examples
        zero_counters_def)
qed

section \<open>The loop over the completed futures\<close>







section \<open>Account rollups\<close>

lemma fold_project_container_totals:
  "total_size (fold (project_container self) cd p)
     = total_size p + (\<Sum>(n, m)\<leftarrow>cd. size_bytes m)"
  "total_deleted_size (fold (project_container self) cd p)
     = total_deleted_size p + (\<Sum>(n, m)\<leftarrow>cd. deleted_size_bytes m)"
  "total_snapshot_size (fold (project_container self) cd p)
     = total_snapshot_size p + (\<Sum>(n, m)\<leftarrow>cd. snapshot_size_bytes m)"
  "total_version_size (fold (project_container self) cd p)
     = total_version_size p + (\<Sum>(n, m)\<leftarrow>cd. version_size_bytes m)"
  by (induction cd arbitrary: p)
     (simp_all add: project_container_def Let_def split: prod.splits)

lemma initial_projection_totals:
  "total_size initial_projection = 0" "total_deleted_size initial_projection = 0"
  "total_snapshot_size initial_projection = 0" "total_version_size initial_projection = 0"
  by (simp_all add: initial_projection_def)

text \<open>
  C5. For every snapshot, the four account-level families that the projector yields
  after the eight container families carry one sample each, labelled with the account
  and the resource group: the sum of \<open>size_bytes\<close> over the containers, the sum of
  \<open>deleted_size_bytes\<close>, the sum of both, and the sum of both with the snapshot and
  version bytes. For a snapshot of one container with \<open>size_bytes = 1048576000\<close> and
  \<open>deleted_size_bytes = 524288000\<close> the total with deleted is \<open>1572864000\<close>.
\<close>

theorem account_rollups_are_sums:
  "drop 8 (project self containers_data) =
     [\<lparr>family_name = ''azure_storage_account_total_size_bytes'',
       label_names = [''storage_account'', ''resource_group''],
       samples = [([storage_account_name self, resource_group_name self],
                   (\<Sum>(n, m)\<leftarrow>containers_data. size_bytes m))]\<rparr>,
      \<lparr>family_name = ''azure_storage_account_total_deleted_size_bytes'',
       label_names = [''storage_account'', ''resource_group''],
       samples = [([storage_account_name self, resource_group_name self],
                   (\<Sum>(n, m)\<leftarrow>containers_data. deleted_size_bytes m))]\<rparr>,
      \<lparr>family_name = ''azure_storage_account_total_size_with_deleted_bytes'',
       label_names = [''storage_account'', ''resource_group''],
       samples = [([storage_account_name self, resource_group_name self],
                   (\<Sum>(n, m)\<leftarrow>containers_data. size_bytes m)
                   + (\<Sum>(n, m)\<leftarrow>containers_data. deleted_size_bytes m))]\<rparr>,
      \<lparr>family_name = ''azure_storage_account_total_size_all_bytes'',
       label_names = [''storage_account'', ''resource_group''],
       samples = [([storage_account_name self, resource_group_name self],
                   (\<Sum>(n, m)\<leftarrow>containers_data. size_bytes m)
                   + (\<Sum>(n, m)\<leftarrow>containers_data. deleted_size_bytes m)
                   + (\<Sum>(n, m)\<leftarrow>containers_data. snapshot_size_bytes m)
                   + (\<Sum>(n, m)\<leftarrow>containers_data. version_size_bytes m))]\<rparr>]
   \<and> (\<forall>name bc dc ss sc vs vc.
        samples (project self
          [(name, \<lparr>size_bytes = 1048576000, blob_count = bc,
                   deleted_size_bytes = 524288000, deleted_blob_count = dc,
                   snapshot_size_bytes = ss, snapshot_count = sc,
                   version_size_bytes = vs, version_count = vc\<rparr>)] ! 10)
        = [([storage_account_name self, resource_group_name self], 1572864000)])"
proof -
  have gen: "drop 8 (project self cd) =
     [\<lparr>family_name = ''azure_storage_account_total_size_bytes'',
       label_names = [''storage_account'', ''resource_group''],
       samples = [([storage_account_name self, resource_group_name self],
                   (\<Sum>(n, m)\<leftarrow>cd. size_bytes m))]\<rparr>,
      \<lparr>family_name = ''azure_storage_account_total_deleted_size_bytes'',
       label_names = [''storage_account'', ''resource_group''],
       samples = [([storage_account_name self, resource_group_name self],
                   (\<Sum>(n, m)\<leftarrow>cd. deleted_size_bytes m))]\<rparr>,
      \<lparr>family_name = ''azure_storage_account_total_size_with_deleted_bytes'',
       label_names = [''storage_account'', ''resource_group''],
       samples = [([storage_account_name self, resource_group_name self],
                   (\<Sum>(n, m)\<leftarrow>cd. size_bytes m)
                   + (\<Sum>(n, m)\<leftarrow>cd. deleted_size_bytes m))]\<rparr>,
      \<lparr>family_name = ''azure_storage_account_total_size_all_bytes'',
       label_names = [''storage_account'', ''resource_group''],
       samples = [([storage_account_name self, resource_group_name self],
                   (\<Sum>(n, m)\<leftarrow>cd. size_bytes m)
                   + (\<Sum>(n, m)\<leftarrow>cd. deleted_size_bytes m)
                   + (\<Sum>(n, m)\<leftarrow>cd. snapshot_size_bytes m)
                   + (\<Sum>(n, m)\<leftarrow>cd. version_size_bytes m))]\<rparr>]" for cd
    by (simp add: project_def Let_def fold_project_container_totals
        initial_projection_totals gauge_def add_metric_def account_labels_def)
  have ex: "samples (project self [(name, m)] ! 10)
        = [([storage_account_name self, resource_group_name self],
            size_bytes m + deleted_size_bytes m)]" for name m
  proof -
    have "project self [(name, m)] ! 10 = drop 8 (project self [(name, m)]) ! 2"
      by (simp add: project_def Let_def)
    then show ?thesis by (simp only: gen) simp
  qed
  show ?thesis
    by (simp only: gen ex) simp
qed

section \<open>Reads of the cache\<close>

lemma started_threads_simps:
  "started_threads [] = 0"
  "started_threads (StartThread # tr) = Suc (started_threads tr)"
  "ev \<noteq> StartThread \<Longrightarrow> started_threads (ev # tr) = started_threads tr"
  "started_threads (tr @ tr') = started_threads tr + started_threads tr'"
  by (simp_all add: started_threads_def)

lemma is_cache_valid_reads_events:
  "started_threads (is_cache_valid_reads s) = 0"
  "Fetch \<notin> set (is_cache_valid_reads s)"
  "StartThread \<notin> set (is_cache_valid_reads s)"
  "Write f \<notin> set (is_cache_valid_reads s)"
  by (simp_all add: is_cache_valid_reads_def started_threads_def)

lemma is_cache_valid_cases:
  "is_cache_valid self s now \<longleftrightarrow>
     (\<exists>d ts. cache s = Some d \<and> cache_timestamp s = Some ts
        \<and> now - ts < of_int (cache_ttl_seconds self))"
  by (simp add: is_cache_valid_def split: option.splits)

lemma read_fresh:
  assumes "cache s = Some d" "cache_timestamp s = Some ts"
    and "is_cache_valid self s (time_valid e)"
  shows "get_cached_or_fresh_data self e s =
     (Inr d, s\<lparr>cache_age := time_hit e - ts, cache_hits := cache_hits s + 1\<rparr>,
      [Acquire] @ is_cache_valid_reads s @ [Read Timestamp, Read Cache, Release])"
  using assms by (simp add: get_cached_or_fresh_data_def)

lemma read_stale:
  assumes "cache s = Some d" "cache_timestamp s = Some ts"
    and "\<not> is_cache_valid self s (time_valid e)"
  shows "get_cached_or_fresh_data self e s =
     (Inr d,
      s\<lparr>cache_misses := cache_misses s + 1, refresh_in_progress := True,
        cache_age := time_stale e - ts\<rparr>,
      [Acquire] @ is_cache_valid_reads s @ [Read Cache]
        @ (if refresh_in_progress s then [Read Flag]
           else [Read Flag, Write Flag, StartThread])
        @ [Read Timestamp, Read Cache, Release])"
  using assms by (simp add: get_cached_or_fresh_data_def Let_def)

lemma read_no_timestamp:
  assumes "cache s = Some d" "cache_timestamp s = None"
  shows "get_cached_or_fresh_data self e s =
     (Inl TypeError,
      s\<lparr>cache_misses := cache_misses s + 1, refresh_in_progress := True\<rparr>,
      [Acquire] @ is_cache_valid_reads s @ [Read Cache]
        @ (if refresh_in_progress s then [Read Flag]
           else [Read Flag, Write Flag, StartThread])
        @ [Read Timestamp, Release])"
  using assms by (simp add: get_cached_or_fresh_data_def Let_def is_cache_valid_def)

lemma read_empty:
  assumes "cache s = None"
  shows "get_cached_or_fresh_data self e s =
     (case fetch e of
        Inl x \<Rightarrow>
          (Inl x, s\<lparr>cache_misses := cache_misses s + 1\<rparr>,
           [Acquire] @ is_cache_valid_reads s @ [Read Cache, Fetch, Release])
      | Inr containers_data \<Rightarrow>
          (Inr containers_data,
           s\<lparr>cache_misses := cache_misses s + 1,
             last_azure_fetch_duration := time_fetch_end e - time_fetch_start e,
             cache := Some containers_data,
             cache_timestamp := Some (time_stored e),
             cache_age := 0\<rparr>,
           [Acquire] @ is_cache_valid_reads s
             @ [Read Cache, Fetch, Write Cache, Write Timestamp, Release]))"
  using assms
  by (simp add: get_cached_or_fresh_data_def Let_def is_cache_valid_def split: sum.splits)

text \<open>
  C8. A read of a fresh cache returns the cached snapshot; the state it leaves differs
  from the one it found in \<open>cache_age\<close> and \<open>cache_hits\<close> only; its trace has no
  fetch, no thread start and no write of a shared field. A second read that finds the
  cache fresh again returns the same snapshot, again with no fetch and no thread start.
\<close>

theorem fresh_read_changes_counters_only:
  assumes "is_cache_valid self s (time_valid e)"
  shows "\<exists>d ts. cache s = Some d \<and> cache_timestamp s = Some ts \<and>
     (case get_cached_or_fresh_data self e s of (r, s', tr) \<Rightarrow>
        r = Inr d \<and>
        s' = s\<lparr>cache_age := time_hit e - ts, cache_hits := cache_hits s + 1\<rparr> \<and>
        cache s' = cache s \<and> cache_timestamp s' = cache_timestamp s \<and>
        refresh_in_progress s' = refresh_in_progress s \<and>
        Fetch \<notin> set tr \<and> StartThread \<notin> set tr \<and> (\<forall>f. Write f \<notin> set tr) \<and>
        (\<forall>e2. is_cache_valid self s' (time_valid e2) \<longrightarrow>
           (case get_cached_or_fresh_data self e2 s' of (r2, s2, tr2) \<Rightarrow>
              r2 = r \<and> cache s2 = cache s \<and> cache_timestamp s2 = cache_timestamp s \<and>
              Fetch \<notin> set tr2 \<and> StartThread \<notin> set tr2)))"
proof -
  from assms obtain d ts where c: "cache s = Some d" "cache_timestamp s = Some ts"
    by (auto simp: is_cache_valid_cases)
  define s' where "s' = s\<lparr>cache_age := time_hit e - ts, cache_hits := cache_hits s + 1\<rparr>"
  have c': "cache s' = Some d" "cache_timestamp s' = Some ts"
    "refresh_in_progress s' = refresh_in_progress s"
    using c by (simp_all add: s'_def)
  have first: "get_cached_or_fresh_data self e s =
     (Inr d, s', [Acquire] @ is_cache_valid_reads s @ [Read Timestamp, Read Cache, Release])"
    unfolding s'_def by (rule read_fresh [OF c assms])
  have second: "case get_cached_or_fresh_data self e2 s' of (r2, s2, tr2) \<Rightarrow>
              r2 = Inr d \<and> cache s2 = cache s \<and> cache_timestamp s2 = cache_timestamp s \<and>
              Fetch \<notin> set tr2 \<and> StartThread \<notin> set tr2"
    if "is_cache_valid self s' (time_valid e2)" for e2
    by (simp add: read_fresh [OF c'(1,2) that] c c' is_cache_valid_reads_events)
  have "case get_cached_or_fresh_data self e s of (r, s'', tr) \<Rightarrow>
        r = Inr d \<and> s'' = s' \<and>
        cache s'' = cache s \<and> cache_timestamp s'' = cache_timestamp s \<and>
        refresh_in_progress s'' = refresh_in_progress s \<and>
        Fetch \<notin> set tr \<and> StartThread \<notin> set tr \<and> (\<forall>f. Write f \<notin> set tr) \<and>
        (\<forall>e2. is_cache_valid self s'' (time_valid e2) \<longrightarrow>
           (case get_cached_or_fresh_data self e2 s'' of (r2, s2, tr2) \<Rightarrow>
              r2 = r \<and> cache s2 = cache s \<and> cache_timestamp s2 = cache_timestamp s \<and>
              Fetch \<notin> set tr2 \<and> StartThread \<notin> set tr2))"
    using second by (simp add: first c c' is_cache_valid_reads_events)
  then have "cache s = Some d \<and> cache_timestamp s = Some ts \<and>
     (case get_cached_or_fresh_data self e s of (r, s'', tr) \<Rightarrow>
        r = Inr d \<and>
        s'' = s\<lparr>cache_age := time_hit e - ts, cache_hits := cache_hits s + 1\<rparr> \<and>
        cache s'' = cache s \<and> cache_timestamp s'' = cache_timestamp s \<and>
        refresh_in_progress s'' = refresh_in_progress s \<and>
        Fetch \<notin> set tr \<and> StartThread \<notin> set tr \<and> (\<forall>f. Write f \<notin> set tr) \<and>
        (\<forall>e2. is_cache_valid self s'' (time_valid e2) \<longrightarrow>
           (case get_cached_or_fresh_data self e2 s'' of (r2, s2, tr2) \<Rightarrow>
              r2 = r \<and> cache s2 = cache s \<and> cache_timestamp s2 = cache_timestamp s \<and>
              Fetch \<notin> set tr2 \<and> StartThread \<notin> set tr2)))"
    unfolding s'_def using c by (intro conjI) assumption+
  then show ?thesis by (intro exI)
qed

lemma cached_state_fields:
  "cache cached_state = Some example_snapshot" "cache_timestamp cached_state = Some 0"
  "refresh_in_progress cached_state = False"
  by (simp_all add: cached_state_def initial_state_def)

lemma env_at_fields:
  "time_valid (env_at t f) = t" "time_hit (env_at t f) = t" "time_stale (env_at t f) = t"
  "time_stored (env_at t f) = t" "fetch (env_at t f) = f"
  by (simp_all add: env_at_def)

lemma example_ttl: "cache_ttl_seconds (example_collector limit sampling) = 900"
  by (simp add: example_collector_def)

theorem fresh_read_changes_counters_only_witness:
  "is_cache_valid (example_collector 0 False) cached_state
     (time_valid (env_at 100 (Inl (ServiceError ''down'')))) \<and>
   (case get_cached_or_fresh_data (example_collector 0 False)
           (env_at 100 (Inl (ServiceError ''down''))) cached_state of
      (r, s', tr) \<Rightarrow> r = Inr example_snapshot \<and> cache s' = Some example_snapshot \<and>
         cache_timestamp s' = Some 0 \<and> Fetch \<notin> set tr)"
proof -
  have h: "is_cache_valid (example_collector 0 False) cached_state
     (time_valid (env_at 100 (Inl (ServiceError ''down''))))"
    by (simp add: is_cache_valid_def cached_state_fields env_at_fields example_ttl)
  show ?thesis
    using h fresh_read_changes_counters_only [OF h]
    by (auto simp: cached_state_fields split: prod.splits)
qed

text \<open>
  C7. When the fetch of a background refresh raises while a snapshot is cached, the
  thread leaves the state as it found it except for the refresh flag, which it clears:
  the snapshot and its timestamp stay. The next read that finds the cache stale starts
  a refresh again and, the timestamp being set, returns the kept snapshot.
\<close>

theorem failed_refresh_clears_flag_only:
  assumes "cache s = Some d" and "fetch e = Inl x"
  shows "(case background_refresh e s of (s', tr) \<Rightarrow>
      s' = s\<lparr>refresh_in_progress := False\<rparr> \<and>
      cache s' = Some d \<and> cache_timestamp s' = cache_timestamp s \<and>
      \<not> refresh_in_progress s' \<and>
      (\<forall>e2. \<not> is_cache_valid self s' (time_valid e2) \<longrightarrow>
         (case get_cached_or_fresh_data self e2 s' of (r, s2, tr2) \<Rightarrow>
            started_threads tr2 = 1 \<and> refresh_in_progress s2 \<and> cache s2 = Some d \<and>
            (cache_timestamp s \<noteq> None \<longrightarrow> r = Inr d))))"
proof -
  define s' where "s' = s\<lparr>refresh_in_progress := False\<rparr>"
  have b: "background_refresh e s = (s', [Fetch, Acquire, Write Flag, Release])"
    using assms(2) by (simp add: background_refresh_def s'_def)
  have c': "cache s' = Some d" "cache_timestamp s' = cache_timestamp s"
    "\<not> refresh_in_progress s'"
    using assms(1) by (simp_all add: s'_def)
  have next_read: "case get_cached_or_fresh_data self e2 s' of (r, s2, tr2) \<Rightarrow>
            started_threads tr2 = 1 \<and> refresh_in_progress s2 \<and> cache s2 = Some d \<and>
            (cache_timestamp s \<noteq> None \<longrightarrow> r = Inr d)"
    if stale: "\<not> is_cache_valid self s' (time_valid e2)" for e2
  proof (cases "cache_timestamp s'")
    case None
    show ?thesis
      using c' None
      by (simp add: read_no_timestamp [OF c'(1) None] started_threads_simps
          is_cache_valid_reads_events)
  next
    case (Some ts)
    show ?thesis
      using c' Some
      by (simp add: read_stale [OF c'(1) Some stale] started_threads_simps
          is_cache_valid_reads_events)
  qed
  show ?thesis
    unfolding b using c' next_read by (simp add: s'_def [symmetric])
qed

theorem failed_refresh_clears_flag_only_witness:
  "cache (cached_state\<lparr>refresh_in_progress := True\<rparr>) = Some example_snapshot \<and>
   fetch (env_at 1000 (Inl (ServiceError ''timeout''))) = Inl (ServiceError ''timeout'') \<and>
   fst (background_refresh (env_at 1000 (Inl (ServiceError ''timeout'')))
          (cached_state\<lparr>refresh_in_progress := True\<rparr>)) = cached_state"
proof -
  have h1: "cache (cached_state\<lparr>refresh_in_progress := True\<rparr>) = Some example_snapshot"
    by (simp add: cached_state_fields)
  have h2: "fetch (env_at 1000 (Inl (ServiceError ''timeout'')))
            = Inl (ServiceError ''timeout'')"
    by (simp add: env_at_fields)
  show ?thesis
    using h1 h2 failed_refresh_clears_flag_only [OF h1 h2, of "example_collector 0 False"]
    by (auto simp: cached_state_def initial_state_def split: prod.splits)
qed

section \<open>Refresh threads\<close>

lemma read_threads:
  "(case get_cached_or_fresh_data self e s of (r, s', tr) \<Rightarrow>
      (if refresh_in_progress s then 1 else 0) + started_threads tr
        = (if refresh_in_progress s' then 1 else (0::nat)))"
proof (cases "cache s")
  case None
  show ?thesis
    by (simp add: read_empty [OF None] started_threads_simps is_cache_valid_reads_events
        split: sum.splits)
next
  case (Some d)
  show ?thesis
  proof (cases "cache_timestamp s")
    case None
    show ?thesis
      by (simp add: read_no_timestamp [OF Some None] started_threads_simps
          is_cache_valid_reads_events)
  next
    case ts: (Some ts)
    show ?thesis
    proof (cases "is_cache_valid self s (time_valid e)")
      case True
      show ?thesis
        by (simp add: read_fresh [OF Some ts True] started_threads_simps
            is_cache_valid_reads_events)
    next
      case False
      show ?thesis
        by (simp add: read_stale [OF Some ts False] started_threads_simps
            is_cache_valid_reads_events)
    qed
  qed
qed

lemma step_keeps_count:
  assumes "running sys = (if refresh_in_progress (shared sys) then 1 else 0)"
  shows "running (step self a sys)
         = (if refresh_in_progress (shared (step self a sys)) then 1 else 0)"
proof (cases a)
  case (Scrape e)
  show ?thesis
    using read_threads [where self = self and e = e and s = "shared sys"] assms
    by (auto simp: Scrape collect_def split: prod.splits sum.splits if_splits)
next
  case (Finish e)
  show ?thesis
    using assms
    by (simp add: Finish background_refresh_def split: sum.splits if_splits)
qed

lemma run_keeps_count:
  "running sys = (if refresh_in_progress (shared sys) then 1 else 0) \<Longrightarrow>
   running (run self actions sys)
     = (if refresh_in_progress (shared (run self actions sys)) then 1 else 0)"
proof (induction actions arbitrary: sys)
  case Nil then show ?case by simp
next
  case (Cons a actions)
  show ?case
    using Cons.IH [OF step_keeps_count [OF Cons.prems, of self a]] by simp
qed

text \<open>
  C4. In every state that the collector reaches from its start by scrapes and by
  completions of background refreshes, in any order, at most one refresh thread runs,
  and one runs exactly when the refresh flag is set. A read that finds a snapshot and
  finds it stale returns that snapshot without a fetch and leaves snapshot and
  timestamp as they are; it starts a thread when the flag is clear and none when it is
  set, and after it one thread runs.
\<close>

theorem at_most_one_refresh_in_flight:
  "let sys = run self actions initial_system in
     running sys \<le> 1 \<and> (running sys = 1) = refresh_in_progress (shared sys) \<and>
     (\<forall>e d ts. cache (shared sys) = Some d \<longrightarrow> cache_timestamp (shared sys) = Some ts \<longrightarrow>
        \<not> is_cache_valid self (shared sys) (time_valid e) \<longrightarrow>
        (case get_cached_or_fresh_data self e (shared sys) of (r, s', tr) \<Rightarrow>
           r = Inr d \<and> cache s' = Some d \<and> cache_timestamp s' = Some ts \<and>
           Fetch \<notin> set tr \<and>
           started_threads tr = (if refresh_in_progress (shared sys) then 0 else 1) \<and>
           refresh_in_progress s' \<and>
           running (step self (Scrape e) sys) = 1))"
proof -
  define sys where "sys = run self actions initial_system"
  have "running initial_system
        = (if refresh_in_progress (shared initial_system) then 1 else 0)"
    by (simp add: initial_system_def initial_state_def)
  then have inv: "running sys = (if refresh_in_progress (shared sys) then 1 else 0)"
    unfolding sys_def by (rule run_keeps_count)
  have stale: "case get_cached_or_fresh_data self e (shared sys) of (r, s', tr) \<Rightarrow>
           r = Inr d \<and> cache s' = Some d \<and> cache_timestamp s' = Some ts \<and>
           Fetch \<notin> set tr \<and>
           started_threads tr = (if refresh_in_progress (shared sys) then 0 else 1) \<and>
           refresh_in_progress s' \<and>
           running (step self (Scrape e) sys) = 1"
    if "cache (shared sys) = Some d" "cache_timestamp (shared sys) = Some ts"
      "\<not> is_cache_valid self (shared sys) (time_valid e)" for e d ts
    using inv that
    by (simp add: collect_def read_stale [OF that] started_threads_simps
        is_cache_valid_reads_events)
  show ?thesis
    unfolding Let_def sys_def [symmetric] using inv stale by simp
qed

lemma example_run:
  "run (example_collector 0 False)
     [Scrape (env_at 0 (Inr example_snapshot)), Scrape (env_at 1000 (Inr [])),
      Scrape (env_at 1001 (Inr []))] initial_system
   = \<lparr>shared = initial_state\<lparr>cache := Some example_snapshot, cache_timestamp := Some 0,
         refresh_in_progress := True, cache_misses := 3, cache_age := 1001,
         last_scrape_timestamp := 1001, scrape_duration := [0, 0, 0]\<rparr>,
      running = 1\<rparr>"
  by (simp add: initial_system_def initial_state_def get_cached_or_fresh_data_def
      is_cache_valid_def env_at_def example_collector_def Let_def started_threads_def
      is_cache_valid_reads_def collect_def)

theorem at_most_one_refresh_in_flight_witness:
  "(let sys = run (example_collector 0 False)
       [Scrape (env_at 0 (Inr example_snapshot)), Scrape (env_at 1000 (Inr [])),
        Scrape (env_at 1001 (Inr []))] initial_system
    in cache (shared sys) = Some example_snapshot \<and> cache_timestamp (shared sys) = Some 0 \<and>
       \<not> is_cache_valid (example_collector 0 False) (shared sys)
           (time_valid (env_at 2000 (Inr []))) \<and>
       running sys = 1 \<and>
       (case get_cached_or_fresh_data (example_collector 0 False) (env_at 2000 (Inr []))
               (shared sys) of
          (r, s', tr) \<Rightarrow> r = Inr example_snapshot \<and> started_threads tr = 0 \<and>
             Fetch \<notin> set tr) \<and>
       running (step (example_collector 0 False) (Scrape (env_at 2000 (Inr []))) sys) = 1)"
proof -
  let ?C = "example_collector 0 False"
  let ?acts = "[Scrape (env_at 0 (Inr example_snapshot)), Scrape (env_at 1000 (Inr [])),
        Scrape (env_at 1001 (Inr []))]"
  let ?s = "initial_state\<lparr>cache := Some example_snapshot, cache_timestamp := Some 0,
         refresh_in_progress := True, cache_misses := 3, cache_age := 1001,
         last_scrape_timestamp := 1001, scrape_duration := [0, 0, 0]\<rparr>"
  have f: "cache ?s = Some example_snapshot" "cache_timestamp ?s = Some 0"
    "refresh_in_progress ?s" by simp_all
  have st: "\<not> is_cache_valid ?C ?s (time_valid (env_at 2000 (Inr [])))"
    by (simp add: is_cache_valid_def env_at_fields example_ttl)
  from at_most_one_refresh_in_flight [of ?C ?acts]
  have "running \<lparr>shared = ?s, running = 1\<rparr> \<le> 1 \<and>
     (case get_cached_or_fresh_data ?C (env_at 2000 (Inr [])) ?s of (r, s', tr) \<Rightarrow>
           r = Inr example_snapshot \<and> cache s' = Some example_snapshot \<and>
           cache_timestamp s' = Some 0 \<and> Fetch \<notin> set tr \<and>
           started_threads tr = (if refresh_in_progress ?s then 0 else 1) \<and>
           refresh_in_progress s' \<and>
           running (step ?C (Scrape (env_at 2000 (Inr []))) \<lparr>shared = ?s, running = 1\<rparr>) = 1)"
    unfolding example_run Let_def using f st by simp
  then show ?thesis
    unfolding example_run Let_def using f st by (auto split: prod.splits)
qed

section \<open>Lock discipline\<close>

lemma locked_reads:
  "accesses_locked True (is_cache_valid_reads s @ tr) = accesses_locked True tr"
  "fetch_unlocked True (is_cache_valid_reads s @ tr) = fetch_unlocked True tr"
  by (simp_all add: is_cache_valid_reads_def)

text \<open>
  C10, as amended. In the trace of every read and of every background refresh, the lock
  is taken and released in turn and every read or write of the snapshot, the timestamp
  and the flag happens while it is held. The fetch of a background refresh happens
  while the lock is free. A read fetches exactly when it finds no snapshot, and that
  fetch happens while the lock is held.
\<close>

theorem lock_held_except_no_fetch_when_cached:
  "(case get_cached_or_fresh_data self e s of (r, s', tr) \<Rightarrow>
      accesses_locked False tr \<and>
      (Fetch \<in> set tr) = (cache s = None) \<and>
      fetch_unlocked False tr = (cache s \<noteq> None))
   \<and> (case background_refresh e2 s of (s', tr) \<Rightarrow>
      accesses_locked False tr \<and> fetch_unlocked False tr)"
proof -
  have bg: "case background_refresh e2 s of (s', tr) \<Rightarrow>
      accesses_locked False tr \<and> fetch_unlocked False tr"
    by (simp add: background_refresh_def split: sum.splits)
  have rd: "case get_cached_or_fresh_data self e s of (r, s', tr) \<Rightarrow>
      accesses_locked False tr \<and>
      (Fetch \<in> set tr) = (cache s = None) \<and>
      fetch_unlocked False tr = (cache s \<noteq> None)"
  proof (cases "cache s")
    case None
    show ?thesis
      by (simp add: read_empty [OF None] locked_reads is_cache_valid_reads_events None
          split: sum.splits)
  next
    case (Some d)
    show ?thesis
    proof (cases "cache_timestamp s")
      case None
      show ?thesis
        by (simp add: read_no_timestamp [OF Some None] locked_reads
            is_cache_valid_reads_events Some)
    next
      case ts: (Some ts)
      show ?thesis
      proof (cases "is_cache_valid self s (time_valid e)")
        case True
        show ?thesis
          by (simp add: read_fresh [OF Some ts True] locked_reads
              is_cache_valid_reads_events Some)
      next
        case False
        show ?thesis
          by (simp add: read_stale [OF Some ts False] locked_reads
              is_cache_valid_reads_events Some)
      qed
    qed
  qed
  from rd bg show ?thesis by (rule conjI)
qed

text \<open>
  C10, as stated, fails: the first read of a new collector fetches while it holds the
  lock.
\<close>

theorem first_read_fetches_under_lock:
  "\<not> fetch_unlocked False
       (snd (snd (get_cached_or_fresh_data (example_collector 0 False)
                    (env_at 0 (Inr example_snapshot)) initial_state)))"
  by (simp add: get_cached_or_fresh_data_def is_cache_valid_def initial_state_def
      env_at_def Let_def is_cache_valid_reads_def)

end
